theory Spec2Isabelle
  imports Complex_Main "HOL-Library.Word" "HOL-Library.Log_Nat"
begin

text \<open>
  A model of the detection logic of the mining vision system
  (\<open>Mining CV System/main.py\<close>, \<open>config.py\<close>, \<open>utils.py\<close>) and of the security
  monitor (\<open>main.py\<close>): the pixel operations, the per-frame functions and the two
  capture loops, followed by the properties the specification states about them.
\<close>

section \<open>Python floats\<close>

text \<open>
  A Python \<open>float\<close> is an IEEE 754 double. Its finite values are rational numbers, and
  every arithmetic operation returns the exact result rounded to the nearest double, ties
  to the even significand. \<open>float_round\<close> is that rounding: 53 significant bits, and
  the fixed exponent \<open>-1074\<close> below the normal range (gradual underflow). Overflow to
  infinity and NaN are not modelled: every quantity below is far smaller than
  \<open>2 ^ 1024\<close>.
\<close>

type_synonym float = rat

definition rnd_even :: "rat \<Rightarrow> int" where
  "rnd_even y =
     (let n = \<lfloor>y\<rfloor>; r = y - of_int n
      in if r < 1 / 2 then n else if 1 / 2 < r then n + 1 else if even n then n else n + 1)"

text \<open>\<open>expo x\<close> is the binary exponent \<open>\<lfloor>log\<^sub>2 x\<rfloor>\<close> of a positive \<open>x\<close>.\<close>

definition expo :: "rat \<Rightarrow> int" where
  "expo x =
     (if 1 \<le> x then int (floorlog 2 (nat \<lfloor>x\<rfloor>)) - 1
      else - int (floorlog 2 (nat (\<lceil>1 / x\<rceil> - 1))))"

text \<open>The exponent of the last place of the double nearest to a positive \<open>x\<close>.\<close>

definition fexp :: "rat \<Rightarrow> int" where
  "fexp x = max (expo x - 52) (- 1074)"

definition float_round :: "rat \<Rightarrow> float" where
  "float_round x =
     (if x = 0 then 0
      else sgn x * (of_int (rnd_even (\<bar>x\<bar> / 2 powi fexp \<bar>x\<bar>)) * 2 powi fexp \<bar>x\<bar>))"

text \<open>
  The operations the sources use: \<open>float(n)\<close> of an \<open>int\<close> (implicit in
  \<open>int * float\<close>), the product of two floats, the true division \<open>a / b\<close> of two
  \<open>int\<close>s (correctly rounded in Python), and the literals \<open>0.1\<close> and \<open>0.2\<close>.
  Python compares an \<open>int\<close> with a \<open>float\<close> exactly, so comparisons are those of the
  rationals.
\<close>

definition float_of_int :: "int \<Rightarrow> float" where
  "float_of_int n = float_round (of_int n)"

definition float_mul :: "float \<Rightarrow> float \<Rightarrow> float" where
  "float_mul a b = float_round (a * b)"

definition int_truediv :: "int \<Rightarrow> int \<Rightarrow> float" where
  "int_truediv a b = float_round (of_int a / of_int b)"

definition lit_0_1 :: float where
  "lit_0_1 = float_round (1 / 10)"

definition lit_0_2 :: float where
  "lit_0_2 = float_round (2 / 10)"

section \<open>Images, colour ranges and masks\<close>

text \<open>
  The applications work on numpy arrays of unsigned bytes. A colour image is a list of
  rows of three-channel pixels, a single-channel image (grayscale frame, binary mask) a
  list of rows of bytes. \<open>shape0\<close> and \<open>shape1\<close> are numpy's \<open>shape[0]\<close> and
  \<open>shape[1]\<close>, \<open>img_size\<close> is numpy's \<open>size\<close> of a three-channel array; an array
  without rows has size 0 whatever its width.
\<close>

type_synonym uint8 = "8 word"
type_synonym pixel = "uint8 \<times> uint8 \<times> uint8"
type_synonym image = "pixel list list"
type_synonym gray = "uint8 list list"
type_synonym scalar = "int \<times> int \<times> int"
type_synonym rect = "int \<times> int \<times> int \<times> int"

definition shape0 :: "'a list list \<Rightarrow> nat" where
  "shape0 img = length img"

definition shape1 :: "'a list list \<Rightarrow> nat" where
  "shape1 img = (case img of [] \<Rightarrow> 0 | r # _ \<Rightarrow> length r)"

definition img_size :: "image \<Rightarrow> nat" where
  "img_size img = shape0 img * shape1 img * 3"

text \<open>
  A Python slice \<open>xs[lo:hi]\<close>: a negative bound counts from the end, and both bounds are
  clamped to the sequence. \<open>crop img r0 r1 c0 c1\<close> is numpy's \<open>img[r0:r1, c0:c1]\<close>.
\<close>

definition py_slice :: "int \<Rightarrow> int \<Rightarrow> 'a list \<Rightarrow> 'a list" where
  "py_slice lo hi xs =
     (let n = int (length xs);
          l = (if lo < 0 then max (lo + n) 0 else min lo n);
          h = (if hi < 0 then max (hi + n) 0 else min hi n)
      in take (nat (h - l)) (drop (nat l) xs))"

definition crop :: "'a list list \<Rightarrow> int \<Rightarrow> int \<Rightarrow> int \<Rightarrow> int \<Rightarrow> 'a list list" where
  "crop img r0 r1 c0 c1 = map (py_slice c0 c1) (py_slice r0 r1 img)"

text \<open>
  \<open>cv2.inRange(src, lower, upper)\<close>: a byte of the mask is 255 where every channel of
  the pixel lies within the inclusive bounds, and 0 elsewhere. \<open>cv2.countNonZero\<close>
  counts the bytes of a mask that are not 0.
\<close>

definition in_range :: "scalar \<Rightarrow> scalar \<Rightarrow> pixel \<Rightarrow> bool" where
  "in_range lower upper p =
     (case (lower, upper, p) of ((l0, l1, l2), (u0, u1, u2), (c0, c1, c2)) \<Rightarrow>
        l0 \<le> uint c0 \<and> uint c0 \<le> u0 \<and>
        l1 \<le> uint c1 \<and> uint c1 \<le> u1 \<and>
        l2 \<le> uint c2 \<and> uint c2 \<le> u2)"

definition inRange :: "image \<Rightarrow> scalar \<Rightarrow> scalar \<Rightarrow> gray" where
  "inRange src lower upper =
     map (map (\<lambda>p. if in_range lower upper p then 255 else 0)) src"

definition countNonZero :: "gray \<Rightarrow> nat" where
  "countNonZero m = length (filter (\<lambda>b. b \<noteq> 0) (concat m))"

text \<open>
  \<open>cv2.absdiff\<close> of two single-channel frames of one shape (the frames of one capture
  device), and \<open>cv2.threshold(src, thresh, 255, cv2.THRESH_BINARY)\<close>: 255 where the byte
  is greater than the threshold, 0 elsewhere.
\<close>

definition absdiff :: "gray \<Rightarrow> gray \<Rightarrow> gray" where
  "absdiff a b = map2 (map2 (\<lambda>x y. if x \<le> y then y - x else x - y)) a b"

definition threshold :: "gray \<Rightarrow> int \<Rightarrow> gray" where
  "threshold src thresh = map (map (\<lambda>x. if thresh < uint x then 255 else 0)) src"

text \<open>
  \<open>cv2.morphologyEx\<close> with the kernel
  \<open>cv2.getStructuringElement(cv2.MORPH_ELLIPSE, (3, 3))\<close>, which is the cross
  \<open>[[0,1,0],[1,1,1],[0,1,0]]\<close>. Erosion takes the minimum and dilation the maximum of
  the bytes under the kernel; positions outside the image do not contribute (OpenCV's
  default border for morphology). Opening is erosion then dilation, closing is dilation
  then erosion.
\<close>

definition pixel_at :: "gray \<Rightarrow> int \<Rightarrow> int \<Rightarrow> uint8 option" where
  "pixel_at img i j =
     (if 0 \<le> i \<and> i < int (length img) \<and> 0 \<le> j \<and> j < int (length (img ! nat i))
      then Some (img ! nat i ! nat j) else None)"

definition under_kernel :: "gray \<Rightarrow> nat \<Rightarrow> nat \<Rightarrow> uint8 list" where
  "under_kernel img i j =
     List.map_filter (\<lambda>(a, b). pixel_at img a b)
       [(int i - 1, int j), (int i, int j - 1), (int i, int j), (int i, int j + 1),
        (int i + 1, int j)]"

definition erode :: "gray \<Rightarrow> gray" where
  "erode img =
     map (\<lambda>i. map (\<lambda>j. fold min (under_kernel img i j) 255) [0..<length (img ! i)])
       [0..<length img]"

definition dilate :: "gray \<Rightarrow> gray" where
  "dilate img =
     map (\<lambda>i. map (\<lambda>j. fold max (under_kernel img i j) 0) [0..<length (img ! i)])
       [0..<length img]"

definition morph_open :: "gray \<Rightarrow> gray" where
  "morph_open img = dilate (erode img)"

definition morph_close :: "gray \<Rightarrow> gray" where
  "morph_close img = erode (dilate img)"

text \<open>A mask of the shape of \<open>img\<close> whose bytes are all 0.\<close>

definition blank :: "'a list list \<Rightarrow> gray" where
  "blank img = map (map (\<lambda>_. 0)) img"

section \<open>The vision library\<close>

text \<open>
  The remaining library functions are not part of the repository and have no simple
  arithmetic description: colour conversion, blurring, mirroring, edge detection, contour
  tracing, the face detector, the two drawing functions, and numpy's
  \<open>np.mean(img, axis=(0, 1))\<close>, the mean of each channel as a float. They are
  parameters of the model, collected in one record, and stand for the library on the
  frames a capture device delivers, which have pixels (on an array without pixels the
  library raises). All the code looks at in a contour is its area
  (\<open>cv2.contourArea\<close>, a float) and its bounding rectangle (\<open>cv2.boundingRect\<close>).
  A text drawn on a frame is given by the arguments of its format string.
\<close>

record contour =
  contourArea :: float
  boundingRect :: rect

datatype label =
    Label string
  | OreLabel string int
  | AlertLabel string
  | MotionLabel float
  | DustLabel nat
  | DetectionsLabel int

record cv2 =
  cvtColor_BGR2HSV :: "image \<Rightarrow> image"
  cvtColor_BGR2GRAY :: "image \<Rightarrow> gray"
  GaussianBlur :: "gray \<Rightarrow> gray"
  flip_horizontal :: "image \<Rightarrow> image"
  Canny :: "gray \<Rightarrow> gray"
  findContours :: "gray \<Rightarrow> contour list"
  detectMultiScale :: "gray \<Rightarrow> rect list"
  rectangle :: "image \<Rightarrow> int \<times> int \<Rightarrow> int \<times> int \<Rightarrow> scalar \<Rightarrow> image"
  putText :: "image \<Rightarrow> label \<Rightarrow> int \<times> int \<Rightarrow> scalar \<Rightarrow> image"
  np_mean :: "image \<Rightarrow> float \<times> float \<times> float"

section \<open>The mining system\<close>

text \<open>
  The state of \<open>MiningCVSystem\<close> that the processing loop reads and writes. The
  detection history is a \<open>deque(maxlen=1000)\<close>, the other three histories are plain
  Python lists. A violation and an equipment alert are dictionaries with the same keys.
\<close>

record detection =
  det_timestamp :: string
  det_ore_type :: string
  det_value :: int
  det_area :: float
  det_position :: rect

record alert =
  alert_timestamp :: string
  alert_type :: string
  alert_position :: rect

record env_alert =
  env_timestamp :: string
  env_type :: string
  env_dust_level :: nat

record mining =
  current_module :: string
  detection_history :: "detection list"
  safety_violations :: "alert list"
  equipment_alerts :: "alert list"
  environmental_data :: "env_alert list"

text \<open>
  \<open>deque.append\<close> on a deque with \<open>maxlen\<close>: the item is added on the right and, if
  the deque is then longer than \<open>maxlen\<close>, one item is removed on the left.
\<close>

definition deque_append :: "nat \<Rightarrow> 'a list \<Rightarrow> 'a \<Rightarrow> 'a list" where
  "deque_append maxlen d x = (let d' = d @ [x] in if maxlen < length d' then tl d' else d')"

text \<open>\<open>self.ore_types\<close>, in the insertion order in which \<open>items()\<close> yields it.\<close>

definition ore_types :: "(string \<times> (scalar \<times> scalar) \<times> int) list" where
  "ore_types =
     [(''iron'', ((0, 50, 50), (20, 255, 255)), 100),
      (''copper'', ((10, 100, 100), (30, 255, 255)), 150),
      (''gold'', ((20, 100, 100), (40, 255, 255)), 500),
      (''silver'', ((0, 0, 100), (180, 30, 255)), 200)]"

text \<open>
  \<open>detect_ore\<close>. \<open>ore_region\<close> is the body of \<open>if area > 500\<close>: it draws the box and
  the label and appends the detection; \<open>ore_contours\<close> is the loop over the contours of
  one ore type.
\<close>

definition ore_region ::
  "cv2 \<Rightarrow> string \<Rightarrow> string \<Rightarrow> int \<Rightarrow> image \<times> mining \<Rightarrow> contour \<Rightarrow> image \<times> mining" where
  "ore_region cv now ore_type val fs contour =
     (case (fs, boundingRect contour) of ((frame, st), (x, y, w, h)) \<Rightarrow>
        let frame1 = rectangle cv frame (x, y) (x + w, y + h) (0, 255, 0);
            frame2 = putText cv frame1 (OreLabel ore_type val) (x, y - 10) (0, 255, 0);
            detection = \<lparr>det_timestamp = now, det_ore_type = ore_type, det_value = val,
                         det_area = contourArea contour, det_position = (x, y, w, h)\<rparr>
        in (frame2,
            st\<lparr>detection_history := deque_append 1000 (detection_history st) detection\<rparr>))"

definition ore_contours ::
  "cv2 \<Rightarrow> string \<Rightarrow> string \<Rightarrow> int \<Rightarrow> image \<times> mining \<Rightarrow> contour list \<Rightarrow> image \<times> mining" where
  "ore_contours cv now ore_type val fs contours =
     foldl (\<lambda>fs contour.
              if 500 < contourArea contour then ore_region cv now ore_type val fs contour
              else fs)
       fs contours"

definition detect_ore :: "cv2 \<Rightarrow> string \<Rightarrow> image \<times> mining \<Rightarrow> image \<times> mining" where
  "detect_ore cv now fs =
     (let hsv = cvtColor_BGR2HSV cv (fst fs)
      in foldl (\<lambda>fs (ore_type, (lower, upper), val).
                  ore_contours cv now ore_type val fs
                    (findContours cv (inRange hsv lower upper)))
           fs ore_types)"

text \<open>\<open>detect_helmet\<close> and \<open>monitor_safety\<close>.\<close>

definition detect_helmet :: "cv2 \<Rightarrow> image \<Rightarrow> bool" where
  "detect_helmet cv roi =
     (if img_size roi = 0 then False
      else let hsv = cvtColor_BGR2HSV cv roi;
               bright_mask = inRange hsv (0, 0, 200) (180, 30, 255);
               bright_pixels = countNonZero bright_mask
           in float_mul (float_of_int (int (shape0 roi * shape1 roi))) lit_0_1
                < of_nat bright_pixels)"

definition helmet_roi :: "image \<Rightarrow> rect \<Rightarrow> image option" where
  "helmet_roi frame face =
     (case face of (x, y, w, h) \<Rightarrow>
        if 20 < y then Some (crop frame (y - 20) y x (x + w)) else None)"

definition safety_face :: "cv2 \<Rightarrow> string \<Rightarrow> image \<times> mining \<Rightarrow> rect \<Rightarrow> image \<times> mining" where
  "safety_face cv now fs face =
     (case (fs, face) of ((frame, st), (x, y, w, h)) \<Rightarrow>
        (case helmet_roi frame face of
           None \<Rightarrow> (frame, st)
         | Some roi \<Rightarrow>
             if detect_helmet cv roi
             then (putText cv (rectangle cv frame (x, y) (x + w, y + h) (0, 255, 0))
                     (Label ''PPE Compliant'') (x, y - 10) (0, 255, 0),
                   st)
             else (putText cv (rectangle cv frame (x, y) (x + w, y + h) (0, 0, 255))
                     (Label ''SAFETY VIOLATION'') (x, y - 10) (0, 0, 255),
                   st\<lparr>safety_violations := safety_violations st @
                        [\<lparr>alert_timestamp = now, alert_type = ''No Helmet'',
                          alert_position = (x, y, w, h)\<rparr>]\<rparr>)))"

definition monitor_safety :: "cv2 \<Rightarrow> string \<Rightarrow> image \<times> mining \<Rightarrow> image \<times> mining" where
  "monitor_safety cv now fs =
     (let gray = cvtColor_BGR2GRAY cv (fst fs);
          faces = detectMultiScale cv gray
      in foldl (safety_face cv now) fs faces)"

text \<open>\<open>assess_equipment_health\<close> and \<open>monitor_equipment\<close>.\<close>

definition rust_lower :: scalar where "rust_lower = (0, 50, 50)"
definition rust_upper :: scalar where "rust_upper = (20, 255, 255)"
definition oil_lower :: scalar where "oil_lower = (0, 0, 0)"
definition oil_upper :: scalar where "oil_upper = (180, 255, 50)"

definition rust_pixel :: "pixel \<Rightarrow> bool" where
  "rust_pixel p = in_range rust_lower rust_upper p"

definition oil_pixel :: "pixel \<Rightarrow> bool" where
  "oil_pixel p = in_range oil_lower oil_upper p"

definition assess_equipment_health :: "cv2 \<Rightarrow> image \<Rightarrow> string" where
  "assess_equipment_health cv roi =
     (if img_size roi = 0 then ''Unknown''
      else let hsv = cvtColor_BGR2HSV cv roi;
               rust_pixels = countNonZero (inRange hsv rust_lower rust_upper);
               oil_pixels = countNonZero (inRange hsv oil_lower oil_upper);
               total_pixels = int (shape0 roi * shape1 roi)
           in if float_mul (float_of_int total_pixels) lit_0_1 < of_nat rust_pixels
              then ''Rust Detected''
              else if float_mul (float_of_int total_pixels) lit_0_2 < of_nat oil_pixels
              then ''Oil Leak''
              else ''Good'')"

definition equipment_region ::
  "cv2 \<Rightarrow> string \<Rightarrow> image \<times> mining \<Rightarrow> contour \<Rightarrow> image \<times> mining" where
  "equipment_region cv now fs contour =
     (case (fs, boundingRect contour) of ((frame, st), (x, y, w, h)) \<Rightarrow>
        let equipment_health = assess_equipment_health cv (crop frame y (y + h) x (x + w))
        in if equipment_health = ''Good''
           then (putText cv (rectangle cv frame (x, y) (x + w, y + h) (0, 255, 0))
                   (Label ''Equipment OK'') (x, y - 10) (0, 255, 0),
                 st)
           else (putText cv (rectangle cv frame (x, y) (x + w, y + h) (0, 0, 255))
                   (AlertLabel equipment_health) (x, y - 10) (0, 0, 255),
                 st\<lparr>equipment_alerts := equipment_alerts st @
                      [\<lparr>alert_timestamp = now, alert_type = equipment_health,
                        alert_position = (x, y, w, h)\<rparr>]\<rparr>))"

definition equipment_contours ::
  "cv2 \<Rightarrow> string \<Rightarrow> image \<times> mining \<Rightarrow> contour list \<Rightarrow> image \<times> mining" where
  "equipment_contours cv now fs contours =
     foldl (\<lambda>fs contour.
              if 1000 < contourArea contour then equipment_region cv now fs contour else fs)
       fs contours"

definition monitor_equipment :: "cv2 \<Rightarrow> string \<Rightarrow> image \<times> mining \<Rightarrow> image \<times> mining" where
  "monitor_equipment cv now fs =
     (let gray = cvtColor_BGR2GRAY cv (fst fs);
          edges = Canny cv gray
      in equipment_contours cv now fs (findContours cv edges))"

text \<open>
  \<open>detect_gas\<close> and \<open>monitor_environment\<close>. \<open>mean_color[0]\<close> and
  \<open>mean_color[1]\<close> are the means of the hue and of the saturation channel.
\<close>

definition detect_gas :: "cv2 \<Rightarrow> image \<Rightarrow> bool" where
  "detect_gas cv frame =
     (let hsv = cvtColor_BGR2HSV cv frame;
          mean_color = np_mean cv hsv
      in 100 < fst mean_color \<or> fst (snd mean_color) < 50)"

definition monitor_environment :: "cv2 \<Rightarrow> string \<Rightarrow> image \<times> mining \<Rightarrow> image \<times> mining" where
  "monitor_environment cv now fs =
     (case fs of (frame, st) \<Rightarrow>
        let hsv = cvtColor_BGR2HSV cv frame;
            dust_level = countNonZero (inRange hsv (0, 0, 100) (180, 30, 200));
            gas_detected = detect_gas cv frame;
            frame1 = putText cv frame (DustLabel dust_level) (10, 30) (255, 255, 255)
        in if gas_detected
           then (putText cv frame1 (Label ''GAS DETECTED!'') (10, 60) (0, 0, 255),
                 st\<lparr>environmental_data := environmental_data st @
                      [\<lparr>env_timestamp = now, env_type = ''Gas Detected'',
                        env_dust_level = dust_level\<rparr>]\<rparr>)
           else (frame1, st))"

text \<open>
  \<open>process_frame\<close> and the loop \<open>process_frames\<close>. The loop runs while
  \<open>self.is_running\<close> holds; its input here is the list of the camera reads made while
  it holds, each with the clock reading of that iteration and \<open>None\<close> for a read whose
  \<open>ret\<close> is false. The result is the final state together with the reads the loop
  has left unconsumed when it exits. Displaying the frame and refreshing the statistics
  panel are left out.
\<close>

definition process_frame :: "cv2 \<Rightarrow> string \<Rightarrow> image \<times> mining \<Rightarrow> image \<times> mining" where
  "process_frame cv now fs =
     (let m = current_module (snd fs)
      in if m = ''ore_detection'' then detect_ore cv now fs
         else if m = ''safety_monitoring'' then monitor_safety cv now fs
         else if m = ''equipment_monitoring'' then monitor_equipment cv now fs
         else if m = ''environmental_monitoring'' then monitor_environment cv now fs
         else fs)"

fun process_frames ::
  "cv2 \<Rightarrow> mining \<Rightarrow> (string \<times> image option) list \<Rightarrow> mining \<times> (string \<times> image option) list" where
  "process_frames cv st [] = (st, [])"
| "process_frames cv st ((now, None) # reads) = process_frames cv st reads"
| "process_frames cv st ((now, Some frame) # reads) =
     process_frames cv (snd (process_frame cv now (frame, st))) reads"

section \<open>The security monitor\<close>

text \<open>
  The state of \<open>SmartSecurityMonitor\<close> that the video loop reads and writes.
  \<open>alerts_played\<close> counts the calls of \<open>play_alert\<close>; \<open>video_label\<close> is the frame
  last sent to the display (before its conversion for Tk), \<open>motion_label\<close> the text of
  the motion indicator.
\<close>

record event =
  ev_timestamp :: string
  ev_type :: string
  ev_description :: string

record monitor =
  background_frame :: "gray option"
  frame_count :: int
  motion_detected :: bool
  detection_count :: int
  total_detections :: int
  events_log :: "event list"
  sensitivity :: int
  min_area :: int
  alert_var :: bool
  alerts_played :: nat
  video_label :: "image option"
  motion_label :: string

text \<open>The decimal text of an \<open>int\<close>, as an f-string prints it.\<close>

fun digits :: "nat \<Rightarrow> string" where
  "digits n =
     (if n < 10 then [char_of (48 + n)] else digits (n div 10) @ [char_of (48 + n mod 10)])"

definition str_int :: "int \<Rightarrow> string" where
  "str_int i = (if i < 0 then CHR ''-'' # digits (nat (- i)) else digits (nat i))"

definition log_event :: "string \<Rightarrow> string \<Rightarrow> string \<Rightarrow> monitor \<Rightarrow> monitor" where
  "log_event now event_type description s =
     s\<lparr>events_log := events_log s @
         [\<lparr>ev_timestamp = now, ev_type = event_type, ev_description = description\<rparr>]\<rparr>"

text \<open>
  The contour loop of \<open>process_video\<close>: \<open>motion_region\<close> is the body of
  \<open>if area > self.min_area\<close>; the loop starts from \<open>motion_detected = False\<close>.
\<close>

definition motion_region :: "cv2 \<Rightarrow> bool \<times> image \<Rightarrow> contour \<Rightarrow> bool \<times> image" where
  "motion_region cv acc contour =
     (case (acc, boundingRect contour) of ((detected, frame), (x, y, w, h)) \<Rightarrow>
        (True,
         putText cv (rectangle cv frame (x, y) (x + w, y + h) (0, 255, 0))
           (MotionLabel (contourArea contour)) (x, y - 10) (0, 255, 0)))"

definition motion_contours :: "cv2 \<Rightarrow> int \<Rightarrow> image \<Rightarrow> contour list \<Rightarrow> bool \<times> image" where
  "motion_contours cv minimum frame contours =
     foldl (\<lambda>acc contour.
              if of_int minimum < contourArea contour then motion_region cv acc contour
              else acc)
       (False, frame) contours"

definition motion_mask :: "gray \<Rightarrow> gray \<Rightarrow> int \<Rightarrow> gray" where
  "motion_mask background gray_frame sens =
     (let frame_delta = absdiff background gray_frame;
          thresh = threshold frame_delta sens
      in morph_close (morph_open thresh))"

definition add_status_overlay :: "cv2 \<Rightarrow> string \<Rightarrow> monitor \<Rightarrow> image \<Rightarrow> image" where
  "add_status_overlay cv now s frame =
     (let width = int (shape1 frame);
          frame1 = putText cv frame (Label now) (10, 30) (255, 255, 255);
          frame2 = putText cv frame1 (DetectionsLabel (total_detections s)) (10, 60)
                     (255, 255, 255);
          status_color = (if motion_detected s then (0, 255, 0) else (0, 0, 255));
          status_text = (if motion_detected s then ''MOTION DETECTED'' else ''SECURE'')
      in putText cv frame2 (Label status_text) (width - 200, 30) status_color)"

text \<open>
  One iteration of the loop of \<open>process_video\<close> on a frame that was read:
  \<open>prepare\<close> mirrors the frame and \<open>to_gray\<close> converts and blurs it; the first frame
  after the reference was cleared only initialises the reference (\<open>continue\<close>).
\<close>

definition to_gray :: "cv2 \<Rightarrow> image \<Rightarrow> gray" where
  "to_gray cv frame = GaussianBlur cv (cvtColor_BGR2GRAY cv frame)"

definition video_frame :: "cv2 \<Rightarrow> string \<Rightarrow> image \<Rightarrow> monitor \<Rightarrow> monitor" where
  "video_frame cv now frame0 s =
     (let frame = flip_horizontal cv frame0;
          gray_frame = to_gray cv frame
      in case background_frame s of
           None \<Rightarrow> s\<lparr>background_frame := Some gray_frame\<rparr>
         | Some background \<Rightarrow>
             let thresh = motion_mask background gray_frame (sensitivity s);
                 contours = findContours cv thresh;
                 (detected, frame1) = motion_contours cv (min_area s) frame contours;
                 count = frame_count s + 1;
                 s1 = s\<lparr>frame_count := count,
                        background_frame :=
                          Some (if count mod 30 = 0 then gray_frame else background)\<rparr>;
                 s2 = (if detected \<and> \<not> motion_detected s1
                       then let s' = s1\<lparr>total_detections := total_detections s1 + 1,
                                          detection_count := detection_count s1 + 1\<rparr>;
                                s'' = log_event now ''Motion Detected''
                                        (''Detection #'' @ str_int (detection_count s')) s'
                            in if alert_var s'' then s''\<lparr>alerts_played := Suc (alerts_played s'')\<rparr>
                               else s''
                       else s1);
                 s3 = s2\<lparr>motion_detected := detected\<rparr>
             in s3\<lparr>video_label := Some (add_status_overlay cv now s3 frame1),
                   motion_label := (if detected then ''Motion: DETECTED'' else ''Motion: None'')\<rparr>)"

text \<open>
  The loop \<open>process_video\<close>, on the list of the camera reads made while
  \<open>self.is_running\<close> holds; a read whose \<open>ret\<close> is false leaves the loop (\<open>break\<close>).
  The result is the final state together with the reads left unconsumed.
\<close>

fun process_video ::
  "cv2 \<Rightarrow> monitor \<Rightarrow> (string \<times> image option) list \<Rightarrow> monitor \<times> (string \<times> image option) list" where
  "process_video cv s [] = (s, [])"
| "process_video cv s ((now, None) # reads) = (s, reads)"
| "process_video cv s ((now, Some frame) # reads) =
     process_video cv (video_frame cv now frame s) reads"

text \<open>The state after \<open>__init__\<close> and \<open>setup_video_processing\<close>.\<close>

definition monitor_init :: monitor where
  "monitor_init =
     \<lparr>background_frame = None, frame_count = 0, motion_detected = False,
      detection_count = 0, total_detections = 0, events_log = [], sensitivity = 50,
      min_area = 1000, alert_var = True, alerts_played = 0, video_label = None,
      motion_label = ''Motion: None''\<rparr>"

text \<open>
  \<open>update_sensitivity\<close>, the callback of the sensitivity slider: it stores the value and
  clears the reference frame; the frame count stays as it is.
\<close>

definition update_sensitivity :: "int \<Rightarrow> monitor \<Rightarrow> monitor" where
  "update_sensitivity v s = s\<lparr>sensitivity := v, background_frame := None\<rparr>"

section \<open>Utilities and configuration\<close>

text \<open>\<open>config.ORE_TYPES\<close>, with the fields \<open>calculate_ore_value\<close> reads.\<close>

record ore_params =
  color_range :: "scalar \<times> scalar"
  ore_value :: int
  ore_color :: scalar

definition ORE_TYPES :: "(string \<times> ore_params) list" where
  "ORE_TYPES =
     [(''iron'', \<lparr>color_range = ((0, 50, 50), (20, 255, 255)), ore_value = 100,
                 ore_color = (0, 255, 0)\<rparr>),
      (''copper'', \<lparr>color_range = ((10, 100, 100), (30, 255, 255)), ore_value = 150,
                   ore_color = (0, 255, 255)\<rparr>),
      (''gold'', \<lparr>color_range = ((20, 100, 100), (40, 255, 255)), ore_value = 500,
                 ore_color = (0, 255, 255)\<rparr>),
      (''silver'', \<lparr>color_range = ((0, 0, 100), (180, 30, 255)), ore_value = 200,
                   ore_color = (255, 255, 255)\<rparr>),
      (''coal'', \<lparr>color_range = ((0, 0, 0), (180, 255, 50)), ore_value = 80,
                 ore_color = (0, 0, 0)\<rparr>)]"

definition MAX_DETECTION_HISTORY :: nat where "MAX_DETECTION_HISTORY = 1000"
definition MAX_VIOLATIONS :: nat where "MAX_VIOLATIONS = 500"
definition MAX_ALERTS :: nat where "MAX_ALERTS = 500"

text \<open>\<open>utils.calculate_ore_value\<close>; the configuration dictionary is a map.\<close>

definition calculate_ore_value :: "string \<Rightarrow> float \<Rightarrow> (string \<rightharpoonup> ore_params) \<Rightarrow> float" where
  "calculate_ore_value ore_type area ore_types_config =
     (case ore_types_config ore_type of
        None \<Rightarrow> 0
      | Some params \<Rightarrow>
          let base_value = ore_value params;
              value_per_pixel = int_truediv base_value 1000
          in float_mul area value_per_pixel)"

definition float_add :: "float \<Rightarrow> float \<Rightarrow> float" where
  "float_add a b = float_round (a + b)"

text \<open>\<open>utils.is_contour_valid\<close>, which no detection loop calls.\<close>

definition is_contour_valid :: "contour \<Rightarrow> int \<Rightarrow> bool" where
  "is_contour_valid contour minimum = (of_int minimum \<le> contourArea contour)"

section \<open>Runs of the video loop\<close>

text \<open>
  \<open>frame_motion\<close> is the value the local variable \<open>motion_detected\<close> of
  \<open>process_video\<close> has after the contour loop of an iteration that starts in state
  \<open>s\<close>. \<open>motion_flags\<close> lists these values along a run; the iteration that only
  initialises the reference computes none. \<open>rising_edges\<close> counts the positions at which
  a flag is set and the one before it is not.
\<close>

definition frame_motion :: "cv2 \<Rightarrow> monitor \<Rightarrow> image \<Rightarrow> bool" where
  "frame_motion cv s frame0 =
     (case background_frame s of
        None \<Rightarrow> False
      | Some background \<Rightarrow>
          let frame = flip_horizontal cv frame0
          in fst (motion_contours cv (min_area s) frame
                    (findContours cv
                       (motion_mask background (to_gray cv frame) (sensitivity s)))))"

definition run_video :: "cv2 \<Rightarrow> monitor \<Rightarrow> (string \<times> image) list \<Rightarrow> monitor" where
  "run_video cv s frames =
     fst (process_video cv s (map (\<lambda>(now, frame). (now, Some frame)) frames))"

fun motion_flags :: "cv2 \<Rightarrow> monitor \<Rightarrow> (string \<times> image) list \<Rightarrow> bool list" where
  "motion_flags cv s [] = []"
| "motion_flags cv s ((now, frame) # frames) =
     (case background_frame s of
        None \<Rightarrow> motion_flags cv (video_frame cv now frame s) frames
      | Some _ \<Rightarrow> frame_motion cv s frame # motion_flags cv (video_frame cv now frame s) frames)"

fun rising_edges :: "bool \<Rightarrow> bool list \<Rightarrow> nat" where
  "rising_edges previous [] = 0"
| "rising_edges previous (x # xs) =
     (if x \<and> \<not> previous then 1 else 0) + rising_edges x xs"

section \<open>Concrete inputs\<close>

text \<open>
  A stand-in for the library, to run the model on concrete frames: colour conversion
  keeps the pixels, the grayscale of a pixel is its first channel, blurring and edge
  detection keep the image, drawing leaves the frame as it is, the contour tracer returns
  the given contours for every mask with a non-zero byte, the face detector returns
  the given faces, and every channel mean is 0.
\<close>

definition cv_stub :: "contour list \<Rightarrow> rect list \<Rightarrow> cv2" where
  "cv_stub contours faces =
     \<lparr>cvtColor_BGR2HSV = (\<lambda>img. img),
      cvtColor_BGR2GRAY = map (map fst),
      GaussianBlur = (\<lambda>g. g),
      flip_horizontal = map rev,
      Canny = (\<lambda>g. g),
      findContours = (\<lambda>m. if countNonZero m = 0 then [] else contours),
      detectMultiScale = (\<lambda>g. faces),
      rectangle = (\<lambda>img p q c. img),
      putText = (\<lambda>img l p c. img),
      np_mean = (\<lambda>img. (0, 0, 0))\<rparr>"

text \<open>The state of the mining system after \<open>__init__\<close>.\<close>

definition mining_init :: mining where
  "mining_init =
     \<lparr>current_module = ''ore_detection'', detection_history = [], safety_violations = [],
      equipment_alerts = [], environmental_data = []\<rparr>"

text \<open>A black frame of 22 rows and one column, and a face just below its 21st row.\<close>

definition dark_frame :: image where
  "dark_frame = replicate 22 [(0, 0, 0)]"

definition low_face :: rect where
  "low_face = (0, 21, 1, 1)"

text \<open>
  The region above that face, a white frame of the same shape, a frame of one pixel whose
  colour lies in the iron and in the copper range, and three contours: one of area 2000,
  one of area exactly 500 (the outline of a filled rectangle of 26 by 21 pixels) and one
  of area 501.
\<close>

definition dark_roi :: image where
  "dark_roi = replicate 20 [(0, 0, 0)]"

definition light_frame :: image where
  "light_frame = replicate 22 [(255, 255, 255)]"

definition one_pixel :: image where
  "one_pixel = [[(10, 100, 100)]]"

definition big_contour :: contour where
  "big_contour = \<lparr>contourArea = 2000, boundingRect = (0, 0, 1, 22)\<rparr>"

definition contour_500 :: contour where
  "contour_500 = \<lparr>contourArea = 500, boundingRect = (0, 0, 26, 21)\<rparr>"

definition contour_501 :: contour where
  "contour_501 = \<lparr>contourArea = 501, boundingRect = (0, 0, 26, 21)\<rparr>"

text \<open>
  Frames of one pixel that carry a number, and the clock reading and frame of the
  reads number \<open>a\<close> to \<open>b - 1\<close>.
\<close>

definition numbered_frame :: "nat \<Rightarrow> image" where
  "numbered_frame k = [[(of_nat k, of_nat k, of_nat k)]]"

definition numbered_frames :: "nat \<Rightarrow> nat \<Rightarrow> (string \<times> image) list" where
  "numbered_frames a b = map (\<lambda>k. (''t'', numbered_frame k)) [a..<b]"

section \<open>Properties of float rounding\<close>

subsection \<open>The binary exponent\<close>

lemma expo_ge:
  assumes "0 < x" shows "2 powi (expo x) \<le> x"
proof (cases "1 \<le> x")
  case True
  define n where "n = nat \<lfloor>x\<rfloor>"
  have n: "0 < n" using True by (simp add: n_def)
  have b: "2 ^ (floorlog 2 n - 1) \<le> n" using floorlog_bounds [of n 2] n by simp
  have f: "1 \<le> floorlog 2 n" using n by (simp add: floorlog_def)
  have "expo x = int (floorlog 2 n - 1)" using True f by (simp add: expo_def n_def)
  then have "2 powi (expo x) = (2::rat) ^ (floorlog 2 n - 1)" by simp
  also have "\<dots> = of_nat (2 ^ (floorlog 2 n - 1))" by simp
  also have "\<dots> \<le> of_nat n" using b of_nat_le_iff by blast
  also have "\<dots> = of_int \<lfloor>x\<rfloor>" using True by (simp add: n_def)
  also have "\<dots> \<le> x" by simp
  finally show ?thesis .
next
  case False
  define z where "z = 1 / x"
  have z: "1 < z" using False assms by (simp add: z_def)
  define k where "k = nat (\<lceil>z\<rceil> - 1)"
  have c: "2 \<le> \<lceil>z\<rceil>" using z by linarith
  have k: "0 < k" using c by (simp add: k_def)
  have b: "k < 2 ^ floorlog 2 k" using floorlog_bounds [of k 2] k by simp
  have "\<lceil>z\<rceil> = int k + 1" using c by (simp add: k_def)
  then have "\<lceil>z\<rceil> \<le> int (2 ^ floorlog 2 k)" using b by linarith
  then have "z \<le> of_int (int (2 ^ floorlog 2 k))" by (simp add: ceiling_le_iff)
  then have zz: "z \<le> 2 ^ floorlog 2 k" by simp
  have "expo x = - int (floorlog 2 k)" using False by (simp add: expo_def k_def z_def)
  then have "2 powi (expo x) = 1 / (2::rat) ^ floorlog 2 k"
    by (simp add: power_int_minus field_simps)
  also have "\<dots> \<le> 1 / z" using zz z by (simp add: frac_le)
  also have "\<dots> = x" by (simp add: z_def)
  finally show ?thesis .
qed

lemma expo_lt:
  assumes "0 < x" shows "x < 2 powi (expo x + 1)"
proof (cases "1 \<le> x")
  case True
  define n where "n = nat \<lfloor>x\<rfloor>"
  have n: "0 < n" using True by (simp add: n_def)
  have b: "n < 2 ^ floorlog 2 n" using floorlog_bounds [of n 2] n by simp
  have "expo x + 1 = int (floorlog 2 n)" using True by (simp add: expo_def n_def)
  then have e: "2 powi (expo x + 1) = (2::rat) ^ floorlog 2 n" by simp
  have "\<lfloor>x\<rfloor> = int n" using True by (simp add: n_def)
  then have "\<lfloor>x\<rfloor> < int (2 ^ floorlog 2 n)" using b by linarith
  then have "x < of_int (int (2 ^ floorlog 2 n))" by (simp only: floor_less_iff)
  then show ?thesis using e by simp
next
  case False
  define z where "z = 1 / x"
  have z: "1 < z" using False assms by (simp add: z_def)
  define k where "k = nat (\<lceil>z\<rceil> - 1)"
  have c: "2 \<le> \<lceil>z\<rceil>" using z by linarith
  have k: "0 < k" using c by (simp add: k_def)
  have f: "1 \<le> floorlog 2 k" using k by (simp add: floorlog_def)
  have b: "2 ^ (floorlog 2 k - 1) \<le> k" using floorlog_bounds [of k 2] k by simp
  have "int k = \<lceil>z\<rceil> - 1" using c by (simp add: k_def)
  then have "int (2 ^ (floorlog 2 k - 1)) < \<lceil>z\<rceil>" using b by linarith
  then have "of_int (int (2 ^ (floorlog 2 k - 1))) < z" by (simp only: less_ceiling_iff)
  then have zz: "2 ^ (floorlog 2 k - 1) < z" by simp
  have "expo x + 1 = - int (floorlog 2 k - 1)"
    using False f by (simp add: expo_def k_def z_def)
  then have "2 powi (expo x + 1) = 1 / (2::rat) ^ (floorlog 2 k - 1)"
    by (simp add: power_int_minus field_simps)
  moreover have "1 / z < 1 / (2::rat) ^ (floorlog 2 k - 1)" using zz by (simp add: frac_less2)
  moreover have "1 / z = x" by (simp add: z_def)
  ultimately show ?thesis by simp
qed

lemma expo_mono:
  assumes "0 < x" "x \<le> y" shows "expo x \<le> expo y"
proof (rule ccontr)
  assume "\<not> expo x \<le> expo y"
  then have "expo y + 1 \<le> expo x" by simp
  then have "(2::rat) powi (expo y + 1) \<le> 2 powi (expo x)"
    by (simp add: power_int_increasing)
  moreover have "y < 2 powi (expo y + 1)" using assms by (intro expo_lt) simp
  moreover have "2 powi (expo x) \<le> x" using assms by (intro expo_ge)
  ultimately show False using assms by linarith
qed

lemma fexp_mono: "0 < x \<Longrightarrow> x \<le> y \<Longrightarrow> fexp x \<le> fexp y"
  using expo_mono [of x y] by (simp add: fexp_def)

subsection \<open>Rounding to an integer\<close>

lemma rnd_even_of_int [simp]: "rnd_even (of_int n) = n"
  by (simp add: rnd_even_def)

lemma rnd_even_bounds: "\<lfloor>y\<rfloor> \<le> rnd_even y" "rnd_even y \<le> \<lfloor>y\<rfloor> + 1"
  by (simp_all add: rnd_even_def Let_def)

lemma rnd_even_mono:
  assumes "a \<le> b" shows "rnd_even a \<le> rnd_even b"
proof (cases "\<lfloor>a\<rfloor> = \<lfloor>b\<rfloor>")
  case True
  then show ?thesis using assms by (simp add: rnd_even_def Let_def)
next
  case False
  then have "\<lfloor>a\<rfloor> + 1 \<le> \<lfloor>b\<rfloor>" using floor_mono [OF assms] by linarith
  then show ?thesis
    using rnd_even_bounds(2) [of a] rnd_even_bounds(1) [of b] by linarith
qed

lemma rnd_even_ge: "of_int n \<le> y \<Longrightarrow> n \<le> rnd_even y"
  using rnd_even_mono [of "of_int n" y] by simp

lemma rnd_even_le: "y \<le> of_int n \<Longrightarrow> rnd_even y \<le> n"
  using rnd_even_mono [of y "of_int n"] by simp

subsection \<open>Rounding to a double is monotone and keeps the doubles\<close>

lemma float_round_pos:
  "0 < x \<Longrightarrow> float_round x = of_int (rnd_even (x / 2 powi fexp x)) * 2 powi fexp x"
  by (simp add: float_round_def)

lemma float_round_minus: "float_round (- x) = - float_round x"
  by (simp add: float_round_def)

lemma float_round_nonneg:
  assumes "0 \<le> x" shows "0 \<le> float_round x"
proof (cases "x = 0")
  case True
  then show ?thesis by (simp add: float_round_def)
next
  case False
  then have x: "0 < x" using assms by simp
  have "0 \<le> x / 2 powi fexp x" using x by simp
  then have "0 \<le> rnd_even (x / 2 powi fexp x)" using rnd_even_ge [of 0] by simp
  then show ?thesis using x by (simp add: float_round_pos)
qed

lemma float_round_mono_pos:
  assumes "0 < x" "x \<le> y" shows "float_round x \<le> float_round y"
proof (cases "fexp x = fexp y")
  case True
  have y: "0 < y" using assms by simp
  have "x / 2 powi fexp y \<le> y / 2 powi fexp y"
    using assms by (simp add: divide_right_mono)
  then have "rnd_even (x / 2 powi fexp y) \<le> rnd_even (y / 2 powi fexp y)"
    by (rule rnd_even_mono)
  then have "(of_int (rnd_even (x / 2 powi fexp y)) :: rat) * 2 powi fexp y
      \<le> of_int (rnd_even (y / 2 powi fexp y)) * 2 powi fexp y"
    by (simp add: mult_right_mono)
  then show ?thesis using assms y True by (simp add: float_round_pos)
next
  case False
  have y: "0 < y" using assms by simp
  define t where "t = expo y"
  have lt: "fexp x < fexp y" using False fexp_mono [OF assms] by simp
  then have ey: "fexp y = t - 52" by (auto simp: fexp_def t_def max_def split: if_splits)
  have ex: "fexp x < t - 52" using lt ey by simp
  have "expo x - 52 \<le> fexp x" by (simp add: fexp_def)
  then have "expo x + 1 \<le> t" using ex by simp
  then have "(2::rat) powi (expo x + 1) \<le> 2 powi t" by (simp add: power_int_increasing)
  then have xt: "x < 2 powi t" using expo_lt [OF assms(1)] by simp
  define d where "d = nat (t - fexp x)"
  have d: "t - fexp x = int d" using ex by (simp add: d_def)
  have "x / 2 powi fexp x \<le> 2 powi t / 2 powi fexp x"
    using xt by (simp add: divide_right_mono)
  also have "\<dots> = (2::rat) powi (t - fexp x)" by (simp add: power_int_diff)
  also have "\<dots> = of_int (2 ^ d)" by (simp add: d)
  finally have "rnd_even (x / 2 powi fexp x) \<le> 2 ^ d" by (rule rnd_even_le)
  then have "(of_int (rnd_even (x / 2 powi fexp x)) :: rat) \<le> of_int (2 ^ d)"
    by (simp only: of_int_le_iff)
  then have "(of_int (rnd_even (x / 2 powi fexp x)) :: rat) * 2 powi fexp x
      \<le> of_int (2 ^ d) * 2 powi fexp x"
    by (simp add: mult_right_mono)
  also have "(of_int (2 ^ d) :: rat) * 2 powi fexp x = 2 powi (t - fexp x) * 2 powi fexp x"
    by (simp add: d)
  also have "\<dots> = 2 powi t" by (simp add: power_int_diff)
  finally have fx: "float_round x \<le> 2 powi t" using assms by (simp add: float_round_pos)
  have "(2::rat) powi t \<le> y" unfolding t_def using y by (rule expo_ge)
  then have "2 powi t / 2 powi fexp y \<le> y / 2 powi fexp y"
    by (simp add: divide_right_mono)
  moreover have "(2::rat) powi t / 2 powi fexp y = of_int (2 ^ 52)"
    by (simp add: ey power_int_diff [symmetric])
  ultimately have "of_int (2 ^ 52) \<le> y / 2 powi fexp y" by simp
  then have "2 ^ 52 \<le> rnd_even (y / 2 powi fexp y)" by (rule rnd_even_ge)
  then have "(of_int (2 ^ 52) :: rat) \<le> of_int (rnd_even (y / 2 powi fexp y))"
    by (simp only: of_int_le_iff)
  then have "(of_int (2 ^ 52) :: rat) * 2 powi fexp y
      \<le> of_int (rnd_even (y / 2 powi fexp y)) * 2 powi fexp y"
    by (simp add: mult_right_mono)
  moreover have "(of_int (2 ^ 52) :: rat) * 2 powi fexp y = 2 powi t"
    by (simp add: ey power_int_diff)
  ultimately have "(2::rat) powi t \<le> of_int (rnd_even (y / 2 powi fexp y)) * 2 powi fexp y"
    by (simp only:)
  then have "2 powi t \<le> float_round y" by (simp only: float_round_pos [OF y])
  then show ?thesis using fx by simp
qed

lemma float_round_mono:
  assumes "x \<le> y" shows "float_round x \<le> float_round y"
proof -
  consider "0 < x" | "x \<le> 0" "0 \<le> y" | "y < 0" by linarith
  then show ?thesis
  proof cases
    case 1
    then show ?thesis using assms by (rule float_round_mono_pos)
  next
    case 2
    have "float_round x \<le> 0"
      using float_round_nonneg [of "- x"] 2 by (simp add: float_round_minus)
    moreover have "0 \<le> float_round y" using 2 by (intro float_round_nonneg)
    ultimately show ?thesis by simp
  next
    case 3
    then have "float_round (- y) \<le> float_round (- x)"
      using assms by (intro float_round_mono_pos) simp_all
    then show ?thesis by (simp add: float_round_minus)
  qed
qed

lemma float_round_repr:
  assumes "0 < m" "m < 2 ^ 53" "- 1074 \<le> k"
  shows "float_round (of_int m * 2 powi k) = of_int m * 2 powi k"
proof -
  define x :: rat where "x = of_int m * 2 powi k"
  have x: "0 < x" using assms by (simp add: x_def)
  have "(of_int m :: rat) < of_int (2 ^ 53)" using assms by (simp only: of_int_less_iff)
  then have "x < 2 ^ 53 * 2 powi k" by (simp add: x_def)
  also have "\<dots> = 2 powi (53 + k)" by (simp add: power_int_add)
  finally have lt: "(2::rat) powi expo x < 2 powi (53 + k)" using expo_ge [OF x] by simp
  have "expo x < 53 + k"
  proof (rule ccontr)
    assume "\<not> expo x < 53 + k"
    then have "53 + k \<le> expo x" by simp
    then have "(2::rat) powi (53 + k) \<le> 2 powi expo x" by (rule power_int_increasing) simp
    with lt show False by simp
  qed
  then have le: "fexp x \<le> k" using assms by (simp add: fexp_def)
  define d where "d = nat (k - fexp x)"
  have d: "k = fexp x + int d" using le by (simp add: d_def)
  have "x / 2 powi fexp x = of_int m * (2 powi k / 2 powi fexp x)" by (simp add: x_def)
  also have "2 powi k / (2::rat) powi fexp x = 2 powi (k - fexp x)" by (simp add: power_int_diff)
  also have "\<dots> = of_int (2 ^ d)" using d by simp
  finally have "x / 2 powi fexp x = of_int (m * 2 ^ d)" by simp
  then have "rnd_even (x / 2 powi fexp x) = m * 2 ^ d" by (simp only: rnd_even_of_int)
  then have "float_round x = of_int (m * 2 ^ d) * 2 powi fexp x"
    using x by (simp add: float_round_pos)
  also have "\<dots> = of_int m * (2 powi int d * 2 powi fexp x)" by simp
  also have "2 powi int d * (2::rat) powi fexp x = 2 powi k" using d by (simp add: power_int_add)
  finally show ?thesis by (simp add: x_def)
qed

lemma float_round_of_int:
  assumes "0 \<le> n" "n < 2 ^ 53" shows "float_round (of_int n) = of_int n"
proof (cases "n = 0")
  case True
  then show ?thesis by (simp add: float_round_def)
next
  case False
  then have "0 < n" using assms by simp
  then show ?thesis using float_round_repr [of n 0] assms by simp
qed

subsection \<open>Comparing a count with a fraction of a total\<close>

text \<open>
  The code compares a pixel count \<open>r\<close> with \<open>total * c\<close>, where \<open>c\<close> is the double
  nearest to \<open>1 / q\<close>. For every total below \<open>2 ^ 32\<close> the rounded product decides
  the comparison as the exact quotient \<open>total / q\<close> does.
\<close>

lemma float_threshold:
  fixes total r q :: int and c :: rat
  assumes t0: "0 \<le> total" and t1: "total < 2 ^ 32" and q0: "0 < q" and q1: "q \<le> 1000"
    and c1: "1 / of_int q \<le> c" and c2: "c \<le> (1 + 1 / 2 ^ 54) / of_int q"
  shows "float_round (of_int total * c) < of_int r \<longleftrightarrow> total < q * r"
proof
  assume lt: "float_round (of_int total * c) < of_int r"
  show "total < q * r"
  proof (rule ccontr)
    assume "\<not> total < q * r"
    then have le: "q * r \<le> total" by simp
    have c0: "0 \<le> c" using c1 q0 by (smt (verit) divide_nonneg_pos of_int_0_less_iff order_trans zero_le_one)
    have x0: "0 \<le> of_int total * c" using t0 c0 by simp
    show False
    proof (cases "0 < r")
      case True
      have "r \<le> q * r" using q0 True by (simp add: mult_le_cancel_right1)
      then have "r < 2 ^ 53" using le t1 by simp
      then have fr: "float_round (of_int r) = of_int r"
        using True by (intro float_round_of_int) simp_all
      have "(of_int (q * r) :: rat) \<le> of_int total" using le by (simp only: of_int_le_iff)
      then have "(of_int r :: rat) \<le> of_int total * (1 / of_int q)"
        using q0 by (simp add: field_simps)
      also have "\<dots> \<le> of_int total * c" using c1 t0 by (intro mult_left_mono) simp_all
      finally have "float_round (of_int r) \<le> float_round (of_int total * c)"
        by (rule float_round_mono)
      then show False using lt fr by simp
    next
      case False
      have "0 \<le> float_round (of_int total * c)" using x0 by (rule float_round_nonneg)
      moreover have "(of_int r :: rat) \<le> 0" using False by simp
      ultimately show False using lt by linarith
    qed
  qed
next
  assume lt: "total < q * r"
  define r' where "r' = total div q + 1"
  define P where "P = q * r'"
  have dm: "q * (total div q) + total mod q = total" by (rule mult_div_mod_eq)
  have m: "0 \<le> total mod q" "total mod q < q" using q0 by simp_all
  have e: "P = q * (total div q) + q" by (simp add: P_def r'_def algebra_simps)
  have P1: "total < P" using dm m e by linarith
  have P2: "P \<le> total + q" using dm m e by linarith
  have "total div q < r"
  proof (rule ccontr)
    assume "\<not> total div q < r"
    then have "r \<le> total div q" by simp
    then have "q * r \<le> q * (total div q)" using q0 by (simp add: mult_left_mono)
    then show False using dm m lt by linarith
  qed
  then have rr: "r' \<le> r" by (simp add: r'_def)
  have dq: "0 \<le> total div q" using t0 q0 by (simp add: pos_imp_zdiv_nonneg_iff)
  then have r1: "1 \<le> r'" by (simp add: r'_def)
  have "1 * (total div q) \<le> q * (total div q)" using q0 dq by (intro mult_right_mono) simp_all
  then have "total div q \<le> total" using dm m by linarith
  then have r2: "r' \<le> 2 ^ 32" using t1 by (simp add: r'_def)
  define m where "m = r' * 2 ^ 20 - 1"
  define d :: rat where "d = of_int m * 2 powi (- 20)"
  have m0: "0 < m" using r1 by (simp add: m_def)
  have m1: "m < 2 ^ 53" using r2 by (simp add: m_def)
  have fd: "float_round d = d" unfolding d_def using m0 m1 by (intro float_round_repr) simp_all
  have dv: "d = of_int r' - 1 / 2 ^ 20" by (simp add: d_def m_def power_int_minus field_simps)
  have qr: "(of_int q :: rat) > 0" using q0 by simp
  define T :: rat where "T = of_int total"
  define Q :: rat where "Q = of_int q"
  define R :: rat where "R = of_int P"
  have "c * Q \<le> 1 + 1 / 2 ^ 54" using c2 qr by (simp add: pos_le_divide_eq Q_def)
  then have "T * (c * Q) \<le> T * (1 + 1 / 2 ^ 54)"
    using t0 by (intro mult_left_mono) (simp_all add: T_def)
  then have a1: "T * c * Q \<le> T + T / 18014398509481984" by (simp add: algebra_simps)
  have "total \<le> P - 1" using P1 by simp
  then have "(of_int total :: rat) \<le> of_int (P - 1)" by (simp only: of_int_le_iff)
  then have a2: "T \<le> R - 1" by (simp add: T_def R_def)
  have "P \<le> 4294968296" using P2 t1 q1 by simp
  then have "(of_int P :: rat) \<le> of_int 4294968296" by (simp only: of_int_le_iff)
  then have a3: "R \<le> 4294968296" by (simp add: R_def)
  have "(of_int q :: rat) \<le> of_int 1000" using q1 by (simp only: of_int_le_iff)
  then have a4: "Q \<le> 1000" by (simp add: Q_def)
  have a5: "d * Q = R - Q / 1048576"
    by (simp add: dv P_def Q_def R_def algebra_simps)
  have "T * c * Q \<le> d * Q" using a1 a2 a3 a4 unfolding a5 by linarith
  then have "T * c \<le> d" using qr by (simp only: mult_le_cancel_right_pos Q_def)
  then have "of_int total * c \<le> d" by (simp only: T_def)
  then have "float_round (of_int total * c) \<le> float_round d" by (rule float_round_mono)
  then have "float_round (of_int total * c) \<le> of_int r' - 1 / 2 ^ 20" using fd dv by simp
  moreover have "(of_int r' :: rat) \<le> of_int r" using rr by (simp only: of_int_le_iff)
  ultimately show "float_round (of_int total * c) < of_int r" by simp
qed

lemma lit_0_1_value: "lit_0_1 = 3602879701896397 / 36028797018963968"
  by code_simp

lemma lit_0_2_value: "lit_0_2 = 3602879701896397 / 18014398509481984"
  by code_simp

lemma exceeds_tenth:
  assumes "0 \<le> tot" "tot < 2 ^ 32"
  shows "float_mul (float_of_int tot) lit_0_1 < of_int r \<longleftrightarrow> tot < 10 * r"
proof -
  have "float_of_int tot = of_int tot"
    unfolding float_of_int_def using assms by (intro float_round_of_int) simp_all
  moreover have "float_round (of_int tot * lit_0_1) < of_int r \<longleftrightarrow> tot < 10 * r"
    using assms by (intro float_threshold) (simp_all add: lit_0_1_value)
  ultimately show ?thesis by (simp add: float_mul_def)
qed

lemma exceeds_fifth:
  assumes "0 \<le> tot" "tot < 2 ^ 32"
  shows "float_mul (float_of_int tot) lit_0_2 < of_int r \<longleftrightarrow> tot < 5 * r"
proof -
  have "float_of_int tot = of_int tot"
    unfolding float_of_int_def using assms by (intro float_round_of_int) simp_all
  moreover have "float_round (of_int tot * lit_0_2) < of_int r \<longleftrightarrow> tot < 5 * r"
    using assms by (intro float_threshold) (simp_all add: lit_0_2_value)
  ultimately show ?thesis by (simp add: float_mul_def)
qed

lemma ratio_tenth:
  assumes "0 < tot"
  shows "(int tot < 10 * int r) = ((1::rat) / 10 < of_nat r / of_nat tot)"
proof -
  have "(int tot < 10 * int r) = ((of_int (int tot) :: rat) < of_int (10 * int r))"
    by (simp only: of_int_less_iff)
  also have "\<dots> = ((of_nat tot :: rat) < 10 * of_nat r)" by simp
  also have "\<dots> = ((1::rat) / 10 < of_nat r / of_nat tot)"
    using assms by (simp add: field_simps)
  finally show ?thesis .
qed

lemma ratio_fifth:
  assumes "0 < tot"
  shows "(int tot < 5 * int r) = ((2::rat) / 10 < of_nat r / of_nat tot)"
proof -
  have "(int tot < 5 * int r) = ((of_int (int tot) :: rat) < of_int (5 * int r))"
    by (simp only: of_int_less_iff)
  also have "\<dots> = ((of_nat tot :: rat) < 5 * of_nat r)" by simp
  also have "\<dots> = ((2::rat) / 10 < of_nat r / of_nat tot)"
    using assms by (simp add: field_simps)
  finally show ?thesis .
qed

section \<open>Properties of the image operations\<close>

lemma absdiff_self: "absdiff g g = blank g"
  by (simp add: absdiff_def blank_def zip_same_conv_map comp_def)

lemma threshold_blank: "0 \<le> t \<Longrightarrow> threshold (blank g) t = blank g"
  by (simp add: threshold_def blank_def comp_def)

lemma countNonZero_blank: "countNonZero (blank g) = 0"
  by (auto simp: countNonZero_def blank_def filter_empty_conv)

lemma length_blank [simp]: "length (blank g) = length g"
  by (simp add: blank_def)

lemma nth_blank [simp]: "i < length g \<Longrightarrow> blank g ! i = map (\<lambda>_. 0) (g ! i)"
  by (simp add: blank_def)

lemma pixel_at_blank: "pixel_at (blank g) a b = Some v \<Longrightarrow> v = 0"
  by (auto simp: pixel_at_def split: if_splits)

lemma pixel_at_blank_centre:
  "i < length g \<Longrightarrow> j < length (g ! i) \<Longrightarrow> pixel_at (blank g) (int i) (int j) = Some 0"
  by (simp add: pixel_at_def)

lemma in_set_map_filter:
  "v \<in> set (List.map_filter f xs) \<longleftrightarrow> (\<exists>x \<in> set xs. f x = Some v)"
  by (induction xs) (auto simp: map_filter_simps split: option.splits)

lemma under_kernel_blank:
  assumes "i < length g" "j < length (g ! i)"
  shows "set (under_kernel (blank g) i j) = {0}"
proof -
  have "0 \<in> set (under_kernel (blank g) i j)"
    unfolding under_kernel_def in_set_map_filter
    using pixel_at_blank_centre [OF assms] by auto
  moreover have "v = 0" if "v \<in> set (under_kernel (blank g) i j)" for v
  proof -
    from that obtain a b where "pixel_at (blank g) a b = Some v"
      unfolding under_kernel_def in_set_map_filter by auto
    then show ?thesis by (rule pixel_at_blank)
  qed
  ultimately show ?thesis by auto
qed

lemma fold_min_zero: "0 \<in> set xs \<or> a = 0 \<Longrightarrow> fold min xs (a :: uint8) = 0"
proof (induction xs arbitrary: a)
  case Nil
  then show ?case by simp
next
  case (Cons x xs)
  show ?case
  proof (cases "x = 0 \<or> a = 0")
    case True
    then have "min x a = 0" by (auto simp: min_def)
    then show ?thesis using Cons.IH [of "min x a"] by simp
  next
    case False
    then have "0 \<in> set xs" using Cons.prems by auto
    then show ?thesis using Cons.IH [of "min x a"] by simp
  qed
qed

lemma fold_max_zero: "set xs \<subseteq> {0} \<Longrightarrow> fold max xs (0 :: uint8) = 0"
  by (induction xs) simp_all

lemma erode_blank: "erode (blank g) = blank g"
proof -
  have "map (\<lambda>j. fold min (under_kernel (blank g) i j) 255) [0..<length (blank g ! i)] =
        blank g ! i" if "i < length g" for i
    using that by (auto intro!: nth_equalityI simp: under_kernel_blank fold_min_zero)
  then have "erode (blank g) ! i = blank g ! i" if "i < length g" for i
    using that by (simp add: erode_def)
  then show ?thesis
    by (intro nth_equalityI) (simp_all add: erode_def)
qed

lemma dilate_blank: "dilate (blank g) = blank g"
proof -
  have "map (\<lambda>j. fold max (under_kernel (blank g) i j) 0) [0..<length (blank g ! i)] =
        blank g ! i" if "i < length g" for i
    using that by (auto intro!: nth_equalityI simp: under_kernel_blank fold_max_zero)
  then have "dilate (blank g) ! i = blank g ! i" if "i < length g" for i
    using that by (simp add: dilate_def)
  then show ?thesis
    by (intro nth_equalityI) (simp_all add: dilate_def)
qed

lemma motion_mask_same: "0 \<le> t \<Longrightarrow> motion_mask g g t = blank g"
  by (simp add: motion_mask_def Let_def absdiff_self threshold_blank morph_open_def
      morph_close_def erode_blank dilate_blank)

section \<open>Properties of the loops\<close>

lemma foldl_if_filter:
  "foldl (\<lambda>s c. if P c then f s c else s) s xs = foldl f s (filter P xs)"
  by (induction xs arbitrary: s) simp_all

subsection \<open>The mining loop and its histories\<close>

lemma process_frames_consumes: "snd (process_frames cv st reads) = []"
  by (induction cv st reads rule: process_frames.induct) simp_all

lemma process_frames_append:
  "process_frames cv st (pre @ post) = process_frames cv (fst (process_frames cv st pre)) post"
  by (induction cv st pre rule: process_frames.induct) simp_all

lemma deque_append_length: "length d \<le> n \<Longrightarrow> length (deque_append n d x) \<le> n"
  by (simp add: deque_append_def Let_def)

lemma deque_append_full:
  "length d = n \<Longrightarrow> 0 < n \<Longrightarrow> deque_append n d x = tl d @ [x]"
  by (cases d) (simp_all add: deque_append_def Let_def)

lemma ore_region_history:
  "length (detection_history (snd fs)) \<le> 1000 \<Longrightarrow>
   length (detection_history (snd (ore_region cv now ore_type val fs contour))) \<le> 1000"
  by (cases fs; cases "boundingRect contour")
    (simp add: ore_region_def Let_def deque_append_length)

lemma ore_contours_history:
  "length (detection_history (snd fs)) \<le> 1000 \<Longrightarrow>
   length (detection_history (snd (ore_contours cv now ore_type val fs contours))) \<le> 1000"
  unfolding ore_contours_def
  by (induction contours arbitrary: fs) (simp_all add: ore_region_history)

lemma detect_ore_history:
  assumes "length (detection_history (snd fs)) \<le> 1000"
  shows "length (detection_history (snd (detect_ore cv now fs))) \<le> 1000"
proof -
  have "length (detection_history (snd (foldl (\<lambda>fs (ore_type, (lower, upper), val).
            ore_contours cv now ore_type val fs (findContours cv (inRange hsv lower upper)))
          fs ts))) \<le> 1000" for hsv ts
    using assms
  proof (induction ts arbitrary: fs)
    case Nil
    then show ?case by simp
  next
    case (Cons t ts)
    obtain ore_type lower upper val where t: "t = (ore_type, (lower, upper), val)"
      by (cases t) auto
    have "length (detection_history (snd (ore_contours cv now ore_type val fs
        (findContours cv (inRange hsv lower upper))))) \<le> 1000"
      using Cons.prems by (rule ore_contours_history)
    then show ?case using Cons.IH by (simp add: t)
  qed
  then show ?thesis by (simp add: detect_ore_def Let_def)
qed

lemma dark_frame_roi: "helmet_roi dark_frame low_face = Some dark_roi"
  by code_simp

lemma dark_roi_no_helmet: "\<not> detect_helmet (cv_stub [] [low_face]) dark_roi"
  by code_simp

lemma dark_frame_violation:
  assumes "current_module st = ''safety_monitoring''"
  shows "snd (process_frame (cv_stub [] [low_face]) now (dark_frame, st)) =
         st\<lparr>safety_violations := safety_violations st @
              [\<lparr>alert_timestamp = now, alert_type = ''No Helmet'',
                alert_position = low_face\<rparr>]\<rparr>"
proof -
  have "detectMultiScale (cv_stub [] [low_face]) g = [low_face]" for g
    by (simp add: cv_stub_def)
  then have "monitor_safety (cv_stub [] [low_face]) now (dark_frame, st) =
      safety_face (cv_stub [] [low_face]) now (dark_frame, st) low_face"
    by (simp add: monitor_safety_def)
  moreover have "snd (safety_face (cv_stub [] [low_face]) now (dark_frame, st) low_face) =
      st\<lparr>safety_violations := safety_violations st @
              [\<lparr>alert_timestamp = now, alert_type = ''No Helmet'',
                alert_position = low_face\<rparr>]\<rparr>"
    using dark_roi_no_helmet
    by (simp add: safety_face_def dark_frame_roi) (simp add: low_face_def)
  ultimately show ?thesis using assms by (simp add: process_frame_def)
qed

lemma dark_frame_violations_grow:
  "current_module st = ''safety_monitoring'' \<Longrightarrow>
   length (safety_violations
      (fst (process_frames (cv_stub [] [low_face]) st (replicate n (now, Some dark_frame))))) =
   length (safety_violations st) + n"
proof (induction n arbitrary: st)
  case 0
  then show ?case by simp
next
  case (Suc n)
  let ?st = "snd (process_frame (cv_stub [] [low_face]) now (dark_frame, st))"
  have m: "current_module ?st = ''safety_monitoring''"
    using Suc.prems by (simp add: dark_frame_violation)
  have "length (safety_violations ?st) = length (safety_violations st) + 1"
    using Suc.prems by (simp add: dark_frame_violation)
  then show ?case using Suc.IH [OF m] by simp
qed

subsection \<open>The video loop\<close>

lemma process_video_good:
  "process_video cv s (map (\<lambda>(now, frame). (now, Some frame)) frames @ reads) =
     process_video cv (foldl (\<lambda>s (now, frame). video_frame cv now frame s) s frames) reads"
  by (induction frames arbitrary: s) (simp_all add: case_prod_beta)

lemma run_video_foldl:
  "run_video cv s frames = foldl (\<lambda>s (now, frame). video_frame cv now frame s) s frames"
  using process_video_good [of cv s frames "[]"] by (simp add: run_video_def)

lemma run_video_Nil [simp]: "run_video cv s [] = s"
  by (simp add: run_video_foldl)

lemma run_video_Cons [simp]:
  "run_video cv s ((now, frame) # frames) = run_video cv (video_frame cv now frame s) frames"
  by (simp add: run_video_foldl)

lemma run_video_snoc:
  "run_video cv s (frames @ [(now, frame)]) = video_frame cv now frame (run_video cv s frames)"
  by (simp add: run_video_foldl)

lemma video_frame_background:
  "background_frame (video_frame cv now frame s) =
     Some (case background_frame s of
             None \<Rightarrow> to_gray cv (flip_horizontal cv frame)
           | Some b \<Rightarrow> if (frame_count s + 1) mod 30 = 0
                       then to_gray cv (flip_horizontal cv frame) else b)"
proof (cases "background_frame s")
  case None
  then show ?thesis by (simp add: video_frame_def Let_def)
next
  case (Some b)
  then show ?thesis by (simp add: video_frame_def Let_def case_prod_beta log_event_def)
qed

lemma video_frame_count:
  "frame_count (video_frame cv now frame s) =
     (case background_frame s of None \<Rightarrow> frame_count s | Some b \<Rightarrow> frame_count s + 1)"
proof (cases "background_frame s")
  case None
  then show ?thesis by (simp add: video_frame_def Let_def)
next
  case (Some b)
  then show ?thesis by (simp add: video_frame_def Let_def case_prod_beta log_event_def)
qed

lemma div_30_below: "30 * ((a::int) div 30) \<le> a"
  using mult_div_mod_eq [of 30 a] pos_mod_sign [of 30 a] by linarith

lemma div_30_at_multiple: "(a::int) mod 30 = 0 \<Longrightarrow> 30 * (a div 30) = a"
  using mult_div_mod_eq [of 30 a] by simp

lemma div_30_next:
  assumes "(a + 1) mod 30 \<noteq> 0" shows "(a + 1) div 30 = (a::int) div 30"
proof -
  have r: "0 \<le> (a + 1) mod 30" "(a + 1) mod 30 < 30" by simp_all
  have "30 * ((a + 1) div 30) + (a + 1) mod 30 = a + 1" by (rule mult_div_mod_eq)
  then have "a = 30 * ((a + 1) div 30) + ((a + 1) mod 30 - 1)" by linarith
  moreover have "0 \<le> (a + 1) mod 30 - 1" using assms r by linarith
  moreover have "(a + 1) mod 30 - 1 < 30" using r by linarith
  ultimately have "a div 30 = (a + 1) div 30" by (rule int_div_pos_eq)
  then show ?thesis by simp
qed

lemma reference_invariant:
  assumes "background_frame s = Some (to_gray cv (flip_horizontal cv (snd d0)))"
  shows "frame_count (run_video cv s rest) = frame_count s + int (length rest) \<and>
         background_frame (run_video cv s rest) =
           Some (to_gray cv (flip_horizontal cv
                   (snd ((d0 # rest) !
                      nat (30 * ((frame_count s + int (length rest)) div 30)
                             - frame_count s)))))"
proof (induction rest rule: rev_induct)
  case Nil
  have "30 * (frame_count s div 30) \<le> frame_count s" by (rule div_30_below)
  then have "nat (30 * (frame_count s div 30) - frame_count s) = 0" by simp
  then show ?case using assms by simp
next
  case (snoc d rest)
  obtain now frame where d: "d = (now, frame)" by (cases d)
  define k where "k = length rest"
  define a where "a = frame_count s + int k"
  let ?s = "run_video cv s rest"
  have c: "frame_count ?s = a" using snoc by (simp add: a_def k_def)
  have b: "background_frame ?s =
      Some (to_gray cv (flip_horizontal cv
              (snd ((d0 # rest) ! nat (30 * (a div 30) - frame_count s)))))"
    using snoc by (simp add: a_def k_def)
  have l: "frame_count s + int (length (rest @ [d])) = a + 1" by (simp add: a_def k_def)
  have i: "30 * (a div 30) \<le> a" by (rule div_30_below)
  have cnt: "frame_count (run_video cv s (rest @ [d])) = a + 1"
    using c b by (simp add: d run_video_snoc video_frame_count)
  have bg: "background_frame (run_video cv s (rest @ [d])) =
      Some (if (a + 1) mod 30 = 0 then to_gray cv (flip_horizontal cv frame)
            else to_gray cv (flip_horizontal cv
                   (snd ((d0 # rest) ! nat (30 * (a div 30) - frame_count s)))))"
    using c b by (simp add: d run_video_snoc video_frame_background)
  show ?case
  proof (cases "(a + 1) mod 30 = 0")
    case True
    then have "30 * ((a + 1) div 30) = a + 1" by (rule div_30_at_multiple)
    then have "nat (30 * ((a + 1) div 30) - frame_count s) = Suc k" by (simp add: a_def)
    then have "(d0 # rest @ [d]) ! nat (30 * ((a + 1) div 30) - frame_count s) = d"
      by (simp add: k_def)
    then show ?thesis
      unfolding l using cnt bg True by (simp add: d)
  next
    case False
    then have e: "(a + 1) div 30 = a div 30" by (rule div_30_next)
    have "nat (30 * (a div 30) - frame_count s) \<le> k" using i by (simp add: a_def)
    then have "nat (30 * (a div 30) - frame_count s) < length (d0 # rest)"
      by (simp add: k_def)
    then have "((d0 # rest) @ [d]) ! nat (30 * (a div 30) - frame_count s) =
        (d0 # rest) ! nat (30 * (a div 30) - frame_count s)"
      by (rule nth_append_left)
    then have "(d0 # rest @ [d]) ! nat (30 * (a div 30) - frame_count s) =
        (d0 # rest) ! nat (30 * (a div 30) - frame_count s)"
      by simp
    then show ?thesis
      unfolding l e using cnt bg False by simp
  qed
qed

lemma video_frame_total:
  "total_detections (video_frame cv now frame s) =
     total_detections s + (if frame_motion cv s frame \<and> \<not> motion_detected s then 1 else 0)"
proof (cases "background_frame s")
  case None
  then show ?thesis by (simp add: video_frame_def frame_motion_def Let_def)
next
  case (Some b)
  then show ?thesis
    by (simp add: video_frame_def frame_motion_def Let_def case_prod_beta log_event_def)
qed

lemma video_frame_events:
  "length (events_log (video_frame cv now frame s)) =
     length (events_log s) + (if frame_motion cv s frame \<and> \<not> motion_detected s then 1 else 0)"
proof (cases "background_frame s")
  case None
  then show ?thesis by (simp add: video_frame_def frame_motion_def Let_def)
next
  case (Some b)
  then show ?thesis
    by (simp add: video_frame_def frame_motion_def Let_def case_prod_beta log_event_def)
qed

lemma video_frame_motion:
  "motion_detected (video_frame cv now frame s) =
     (case background_frame s of None \<Rightarrow> motion_detected s | Some b \<Rightarrow> frame_motion cv s frame)"
proof (cases "background_frame s")
  case None
  then show ?thesis by (simp add: video_frame_def frame_motion_def Let_def)
next
  case (Some b)
  then show ?thesis
    by (simp add: video_frame_def frame_motion_def Let_def case_prod_beta log_event_def)
qed

lemma run_video_edges:
  "total_detections (run_video cv s frames) =
     total_detections s + int (rising_edges (motion_detected s) (motion_flags cv s frames)) \<and>
   length (events_log (run_video cv s frames)) =
     length (events_log s) + rising_edges (motion_detected s) (motion_flags cv s frames)"
proof (induction frames arbitrary: s)
  case Nil
  then show ?case by simp
next
  case (Cons d frames)
  obtain now frame where d: "d = (now, frame)" by (cases d)
  show ?case
  proof (cases "background_frame s")
    case None
    then have "frame_motion cv s frame = False" by (simp add: frame_motion_def)
    then show ?thesis
      using None Cons [of "video_frame cv now frame s"]
      by (simp add: d video_frame_total video_frame_events video_frame_motion)
  next
    case (Some b)
    then show ?thesis
      using Cons [of "video_frame cv now frame s"]
      by (simp add: d video_frame_total video_frame_events video_frame_motion)
  qed
qed

lemma rising_edges_True: "rising_edges True (replicate n True) = 0"
  by (induction n) simp_all

lemma rising_edges_run: "rising_edges False (replicate (Suc n) True) = 1"
  by (simp add: rising_edges_True)

lemma video_frame_sensitivity: "sensitivity (video_frame cv now frame s) = sensitivity s"
proof (cases "background_frame s")
  case None
  then show ?thesis by (simp add: video_frame_def Let_def)
next
  case (Some b)
  then show ?thesis by (simp add: video_frame_def Let_def case_prod_beta log_event_def)
qed

section \<open>The claims\<close>

subsection \<open>C1: the area filter of the region extractors\<close>

text \<open>
  C1 (as stated in the specification): the extractors emit exactly the regions whose area
  is greater than or equal to the minimum; a region whose area equals the minimum is
  emitted. The three loops compare with \<open>area > minimum\<close>: on a frame whose contour has
  area exactly 500, \<open>detect_ore\<close> draws nothing and logs nothing, while the same frame
  with a contour of area 501 is logged (once for each of the two ore types whose range
  holds the pixel).
\<close>

theorem C1_area_at_minimum_counterexample:
  "contourArea contour_500 = 500 \<and>
   snd (detect_ore (cv_stub [contour_500] []) ''t'' (one_pixel, mining_init)) = mining_init \<and>
   map det_area
     (detection_history
        (snd (detect_ore (cv_stub [contour_501] []) ''t'' (one_pixel, mining_init)))) =
     [501, 501]"
  by code_simp

text \<open>
  C1 (amended): for every frame and every minimum, each extractor runs its emitting body
  (box, label and record) exactly for the contours whose area is strictly greater than
  the minimum, once for each of them and in extraction order; a contour whose area is
  equal to or below the minimum is never emitted. The minimum is 500 for ore detection,
  1000 for equipment detection and \<open>min_area\<close> for motion detection.
\<close>

theorem C1_emits_above_minimum:
  "ore_contours cv now ore_type val fs contours =
     foldl (ore_region cv now ore_type val) fs
       (filter (\<lambda>c. 500 < contourArea c) contours) \<and>
   equipment_contours cv now fs contours =
     foldl (equipment_region cv now) fs (filter (\<lambda>c. 1000 < contourArea c) contours) \<and>
   motion_contours cv minimum frame contours =
     foldl (motion_region cv) (False, frame)
       (filter (\<lambda>c. of_int minimum < contourArea c) contours)"
  unfolding ore_contours_def equipment_contours_def motion_contours_def
  by (simp only: foldl_if_filter)

subsection \<open>C2: a failed frame read\<close>

text \<open>
  C2 (as stated in the specification): in both loops a failed read is skipped and the loop
  continues with the next iteration. The video loop of the security monitor leaves at a
  failed read: the frame read after it stays unconsumed and the reference frame, which
  that frame would have initialised, stays unset.
\<close>

theorem C2_video_loop_breaks_counterexample:
  "snd (process_video (cv_stub [] []) monitor_init
          [(''t0'', None), (''t1'', Some dark_frame)]) = [(''t1'', Some dark_frame)] \<and>
   background_frame
     (fst (process_video (cv_stub [] []) monitor_init
             [(''t0'', None), (''t1'', Some dark_frame)])) = None \<and>
   background_frame
     (fst (process_video (cv_stub [] []) monitor_init [(''t1'', Some dark_frame)])) \<noteq> None"
  by (simp add: video_frame_def monitor_init_def Let_def)

text \<open>
  C2 (amended): in the processing loop of the mining system a failed read is skipped and
  the loop continues: the run is the one without that read, and the loop consumes every
  read made while the system is running. In the video loop of the security monitor a
  failed read ends the loop: the frames read before it are processed and every read after
  it is left unconsumed.
\<close>

theorem C2_failed_read:
  "process_frames cv st (pre @ (now, None) # post) = process_frames cv st (pre @ post) \<and>
   snd (process_frames cv st reads) = [] \<and>
   process_video cv s
       (map (\<lambda>(now, frame). (now, Some frame)) frames @ (now, None) # post) =
     (foldl (\<lambda>s (now, frame). video_frame cv now frame s) s frames, post)"
  by (simp add: process_frames_append process_frames_consumes process_video_good)

subsection \<open>C3: the histories\<close>

text \<open>
  C3: every detection-record history is bounded and evicts its oldest record. The
  ore-detection history is (\<open>detect_ore_history\<close>, \<open>deque_append_full\<close>), but the
  safety-violation history is a plain list: 501 frames that each show one face without a
  helmet leave 501 records in it, more than \<open>MAX_VIOLATIONS = 500\<close> of the
  configuration, and none is evicted.
\<close>

theorem C3_violations_unbounded:
  "MAX_VIOLATIONS <
   length (safety_violations
      (fst (process_frames (cv_stub [] [low_face])
              (mining_init\<lparr>current_module := ''safety_monitoring''\<rparr>)
              (replicate 501 (''t'', Some dark_frame)))))"
  by (simp add: dark_frame_violations_grow mining_init_def MAX_VIOLATIONS_def)

subsection \<open>C4: the rust and oil ranges\<close>

text \<open>
  C4 (as stated in the specification): no HSV pixel lies in both the rust range
  \<open>(0,50,50)-(20,255,255)\<close> and the dark/oil range \<open>(0,0,0)-(180,255,50)\<close>.
  The two ranges are inclusive and share the value 50 of the third channel: the pixel
  \<open>(0, 102, 50)\<close>, the HSV value of the BGR colour \<open>(30, 30, 50)\<close>, lies in both.
\<close>

theorem C4_ranges_overlap_counterexample:
  "rust_pixel (0, 102, 50) \<and> oil_pixel (0, 102, 50)"
  by (simp add: rust_pixel_def oil_pixel_def in_range_def rust_lower_def rust_upper_def
      oil_lower_def oil_upper_def)

text \<open>
  C4 (amended): a pixel \<open>(h, s, v)\<close> lies in both ranges exactly when \<open>h \<le> 20\<close>,
  \<open>s \<ge> 50\<close> and \<open>v = 50\<close>; so the two ranges are disjoint on every pixel whose value
  channel differs from 50, and they overlap on the plane \<open>v = 50\<close>.
\<close>

theorem C4_ranges_overlap_exactly:
  "rust_pixel (h, s, v) \<and> oil_pixel (h, s, v) \<longleftrightarrow> uint h \<le> 20 \<and> 50 \<le> uint s \<and> uint v = 50"
proof -
  have "uint h \<le> 255" "uint s \<le> 255" "uint v \<le> 255"
    using uint_bounded [of h] uint_bounded [of s] uint_bounded [of v] by simp_all
  then show ?thesis
    by (auto simp: rust_pixel_def oil_pixel_def in_range_def rust_lower_def rust_upper_def
        oil_lower_def oil_upper_def)
qed

subsection \<open>C5: the reference frame\<close>

text \<open>
  C5 (as stated in the specification): the reference frame is replaced at every 30th
  processed frame after initialization, so after exactly 30 processed frames the reference
  equals the frame processed at that boundary. The replacement follows the frame count,
  which is not reset when the reference is initialised again: after ten processed frames
  and a change of the sensitivity, the frame read next initialises the reference, the
  reference is replaced at the 20th frame processed after it, and after exactly 30
  processed frames it still is that 20th frame, not the 30th.
\<close>

theorem C5_reinitialised_reference_counterexample:
  "frame_count
     (update_sensitivity 60 (run_video (cv_stub [] []) monitor_init (numbered_frames 0 11))) =
     10 \<and>
   background_frame
     (update_sensitivity 60 (run_video (cv_stub [] []) monitor_init (numbered_frames 0 11))) =
     None \<and>
   background_frame
     (run_video (cv_stub [] [])
        (update_sensitivity 60 (run_video (cv_stub [] []) monitor_init (numbered_frames 0 11)))
        (numbered_frames 0 31)) =
     Some (to_gray (cv_stub [] []) (flip_horizontal (cv_stub [] []) (numbered_frame 20))) \<and>
   to_gray (cv_stub [] []) (flip_horizontal (cv_stub [] []) (numbered_frame 20)) \<noteq>
     to_gray (cv_stub [] []) (flip_horizontal (cv_stub [] []) (numbered_frame 30))"
  by code_simp

text \<open>
  C5 (amended): in an iteration that finds a reference frame, the reference becomes the
  current blurred grayscale frame exactly when the incremented frame count is a multiple
  of 30, and stays as it is otherwise; the frame count counts the processed frames since
  the monitor was created and is not reset when the reference is initialised. After the
  frame that initialises the reference and any further frames, the reference is the frame
  at which the count last reached a multiple of 30, or the initialising frame if it did
  not. When the count is a multiple of 30 at the initialisation, as it is at start-up,
  after exactly 30 processed frames the reference is the frame processed last.
\<close>

theorem C5_reference_follows_frame_count:
  assumes "background_frame s = None"
  shows "background_frame (run_video cv s ((t0, f0) # rest)) =
           Some (to_gray cv (flip_horizontal cv
                   (snd (((t0, f0) # rest) !
                      nat (30 * ((frame_count s + int (length rest)) div 30)
                             - frame_count s))))) \<and>
         (frame_count s mod 30 = 0 \<and> length rest = 30 \<longrightarrow>
            background_frame (run_video cv s ((t0, f0) # rest)) =
              Some (to_gray cv (flip_horizontal cv (snd (last rest))))) \<and>
         (background_frame s1 = Some b \<longrightarrow>
            background_frame (video_frame cv now frame s1) =
              Some (if (frame_count s1 + 1) mod 30 = 0
                    then to_gray cv (flip_horizontal cv frame) else b))"
proof -
  let ?s = "video_frame cv t0 f0 s"
  have g: "background_frame ?s = Some (to_gray cv (flip_horizontal cv (snd (t0, f0))))"
    using assms by (simp add: video_frame_background)
  have c: "frame_count ?s = frame_count s" using assms by (simp add: video_frame_count)
  have inv: "background_frame (run_video cv s ((t0, f0) # rest)) =
      Some (to_gray cv (flip_horizontal cv
              (snd (((t0, f0) # rest) !
                 nat (30 * ((frame_count s + int (length rest)) div 30)
                        - frame_count s)))))"
    using reference_invariant [OF g, of rest] by (simp add: c)
  have last: "background_frame (run_video cv s ((t0, f0) # rest)) =
           Some (to_gray cv (flip_horizontal cv (snd (last rest))))"
    if m: "frame_count s mod 30 = 0" and l: "length rest = 30"
  proof -
    have "(frame_count s + 30) mod 30 = 0" using m by simp
    then have "30 * ((frame_count s + 30) div 30) = frame_count s + 30"
      by (rule div_30_at_multiple)
    then have "nat (30 * ((frame_count s + int (length rest)) div 30) - frame_count s) = 30"
      using l by simp
    moreover have "rest \<noteq> []" using l by auto
    then have "((t0, f0) # rest) ! 30 = last rest"
      using l by (simp add: last_conv_nth)
    ultimately show ?thesis using inv by simp
  qed
  show ?thesis
    using inv last by (simp add: video_frame_background)
qed

theorem C5_reference_follows_frame_count_witness:
  "background_frame monitor_init = None \<and> frame_count monitor_init mod 30 = 0 \<and>
   background_frame
     (run_video (cv_stub [] []) monitor_init
        ((''t0'', dark_frame) # replicate 30 (''t1'', light_frame))) =
     Some (to_gray (cv_stub [] []) (flip_horizontal (cv_stub [] []) light_frame))"
  using C5_reference_follows_frame_count
    [of monitor_init "cv_stub [] []" "''t0''" dark_frame "replicate 30 (''t1'', light_frame)"]
  by (simp add: monitor_init_def)

subsection \<open>C6: a frame equal to the reference\<close>

text \<open>
  C6: when the blurred grayscale of a frame equals the reference frame, the absolute
  difference is zero everywhere, the thresholded mask is zero everywhere for every
  sensitivity from 0 on (so for the configured 10 to 100), opening and closing keep the
  zero mask, and, the contour tracer finding no contour in a mask without a non-zero
  byte, no motion region is detected: the iteration clears the motion flag and counts and
  logs nothing. Two identical consecutive frames, the first of which initialises the
  reference, are the instance of the witness.
\<close>

theorem C6_identical_frame_no_motion:
  assumes "background_frame s = Some (to_gray cv (flip_horizontal cv frame))"
    and "0 \<le> sensitivity s"
    and "findContours cv (blank (to_gray cv (flip_horizontal cv frame))) = []"
  shows "absdiff (to_gray cv (flip_horizontal cv frame))
           (to_gray cv (flip_horizontal cv frame)) =
           blank (to_gray cv (flip_horizontal cv frame)) \<and>
         threshold
           (absdiff (to_gray cv (flip_horizontal cv frame))
              (to_gray cv (flip_horizontal cv frame))) (sensitivity s) =
           blank (to_gray cv (flip_horizontal cv frame)) \<and>
         morph_open (blank (to_gray cv (flip_horizontal cv frame))) =
           blank (to_gray cv (flip_horizontal cv frame)) \<and>
         morph_close (blank (to_gray cv (flip_horizontal cv frame))) =
           blank (to_gray cv (flip_horizontal cv frame)) \<and>
         motion_mask (to_gray cv (flip_horizontal cv frame))
           (to_gray cv (flip_horizontal cv frame)) (sensitivity s) =
           blank (to_gray cv (flip_horizontal cv frame)) \<and>
         findContours cv
           (motion_mask (to_gray cv (flip_horizontal cv frame))
              (to_gray cv (flip_horizontal cv frame)) (sensitivity s)) = [] \<and>
         frame_motion cv s frame = False \<and>
         motion_detected (video_frame cv now frame s) = False \<and>
         total_detections (video_frame cv now frame s) = total_detections s \<and>
         events_log (video_frame cv now frame s) = events_log s"
proof -
  let ?g = "to_gray cv (flip_horizontal cv frame)"
  have m: "motion_mask ?g ?g (sensitivity s) = blank ?g"
    using assms(2) by (rule motion_mask_same)
  have f: "frame_motion cv s frame = False"
    using assms by (simp add: frame_motion_def m motion_contours_def)
  have e: "events_log (video_frame cv now frame s) = events_log s"
    using assms by (simp add: video_frame_def Let_def m motion_contours_def)
  show ?thesis
    using assms f e
    by (simp add: absdiff_self threshold_blank morph_open_def morph_close_def erode_blank
        dilate_blank m video_frame_motion video_frame_total)
qed

theorem C6_identical_frame_no_motion_witness:
  "background_frame (video_frame (cv_stub [big_contour] []) ''t0'' dark_frame monitor_init) =
     Some (to_gray (cv_stub [big_contour] [])
             (flip_horizontal (cv_stub [big_contour] []) dark_frame)) \<and>
   0 \<le> sensitivity (video_frame (cv_stub [big_contour] []) ''t0'' dark_frame monitor_init) \<and>
   findContours (cv_stub [big_contour] [])
     (blank (to_gray (cv_stub [big_contour] [])
               (flip_horizontal (cv_stub [big_contour] []) dark_frame))) = [] \<and>
   motion_detected
     (video_frame (cv_stub [big_contour] []) ''t1'' dark_frame
        (video_frame (cv_stub [big_contour] []) ''t0'' dark_frame monitor_init)) = False \<and>
   events_log
     (video_frame (cv_stub [big_contour] []) ''t1'' dark_frame
        (video_frame (cv_stub [big_contour] []) ''t0'' dark_frame monitor_init)) = []"
proof -
  let ?cv = "cv_stub [big_contour] []"
  let ?s = "video_frame ?cv ''t0'' dark_frame monitor_init"
  have b: "background_frame ?s = Some (to_gray ?cv (flip_horizontal ?cv dark_frame))"
    by (simp add: video_frame_background monitor_init_def)
  have n: "0 \<le> sensitivity ?s"
    by (simp add: video_frame_sensitivity monitor_init_def)
  have c: "findContours ?cv (blank (to_gray ?cv (flip_horizontal ?cv dark_frame))) = []"
    by (simp add: cv_stub_def countNonZero_blank)
  have e: "events_log ?s = []"
    by (simp add: video_frame_def monitor_init_def Let_def)
  show ?thesis
    using C6_identical_frame_no_motion [OF b n c, of "''t1''"] b n c e by simp
qed

subsection \<open>C7: the ordered rules of the classifiers\<close>

text \<open>
  C7: for every non-empty equipment region (of fewer than \<open>2 ^ 32\<close> pixels, which
  every frame of a camera is) the classifier returns the rust alert exactly when the
  ratio of rust-coloured pixels strictly exceeds 0.1; otherwise the oil-leak alert exactly
  when the ratio of dark pixels strictly exceeds 0.2; otherwise the normal label. For
  every such helmet region the result is compliant exactly when the ratio of bright pixels
  strictly exceeds 0.1. The ratios are exact quotients: the float products of the code
  decide the comparisons as the exact fractions do.
\<close>

theorem C7_ordered_rules:
  assumes "img_size roi \<noteq> 0" and "shape0 roi * shape1 roi < 2 ^ 32"
  shows "assess_equipment_health cv roi =
           (if 1 / 10 <
                 (of_nat (countNonZero (inRange (cvtColor_BGR2HSV cv roi) rust_lower rust_upper))
                    :: rat) / of_nat (shape0 roi * shape1 roi)
            then ''Rust Detected''
            else if 2 / 10 <
                 (of_nat (countNonZero (inRange (cvtColor_BGR2HSV cv roi) oil_lower oil_upper))
                    :: rat) / of_nat (shape0 roi * shape1 roi)
            then ''Oil Leak''
            else ''Good'') \<and>
         (detect_helmet cv roi \<longleftrightarrow>
            1 / 10 <
              (of_nat (countNonZero
                         (inRange (cvtColor_BGR2HSV cv roi) (0, 0, 200) (180, 30, 255)))
                 :: rat) / of_nat (shape0 roi * shape1 roi))"
proof -
  let ?t = "shape0 roi * shape1 roi"
  have t: "0 < ?t" using assms(1) by (simp add: img_size_def)
  have "int ?t < int (2 ^ 32)" using assms(2) by (simp only: of_nat_less_iff)
  then have b: "0 \<le> int ?t" "int ?t < 2 ^ 32" by simp_all
  have k: "(of_nat n :: rat) = of_int (int n)" for n by simp
  have "assess_equipment_health cv roi =
           (if 1 / 10 <
                 (of_nat (countNonZero (inRange (cvtColor_BGR2HSV cv roi) rust_lower rust_upper))
                    :: rat) / of_nat (shape0 roi * shape1 roi)
            then ''Rust Detected''
            else if 2 / 10 <
                 (of_nat (countNonZero (inRange (cvtColor_BGR2HSV cv roi) oil_lower oil_upper))
                    :: rat) / of_nat (shape0 roi * shape1 roi)
            then ''Oil Leak''
            else ''Good'')"
    using assms(1)
    by (simp only: assess_equipment_health_def Let_def if_False k [of "countNonZero _"]
        exceeds_tenth [OF b] exceeds_fifth [OF b] ratio_tenth [OF t] ratio_fifth [OF t])
  moreover have "detect_helmet cv roi \<longleftrightarrow>
            1 / 10 <
              (of_nat (countNonZero
                         (inRange (cvtColor_BGR2HSV cv roi) (0, 0, 200) (180, 30, 255)))
                 :: rat) / of_nat (shape0 roi * shape1 roi)"
    using assms(1)
    by (simp only: detect_helmet_def Let_def if_False k [of "countNonZero _"]
        exceeds_tenth [OF b] ratio_tenth [OF t])
  ultimately show ?thesis by (simp only: simp_thms)
qed

theorem C7_ordered_rules_witness:
  "img_size dark_roi \<noteq> 0 \<and> shape0 dark_roi * shape1 dark_roi < 2 ^ 32 \<and>
   assess_equipment_health (cv_stub [] []) dark_roi = ''Oil Leak'' \<and>
   \<not> detect_helmet (cv_stub [] []) dark_roi"
proof -
  have n: "img_size dark_roi \<noteq> 0" by code_simp
  have t: "shape0 dark_roi * shape1 dark_roi = 20" by code_simp
  then have l: "shape0 dark_roi * shape1 dark_roi < 2 ^ 32" by simp
  have r: "countNonZero (inRange (cvtColor_BGR2HSV (cv_stub [] []) dark_roi)
             rust_lower rust_upper) = 0" by code_simp
  have d: "countNonZero (inRange (cvtColor_BGR2HSV (cv_stub [] []) dark_roi)
             oil_lower oil_upper) = 20" by code_simp
  have h: "countNonZero (inRange (cvtColor_BGR2HSV (cv_stub [] []) dark_roi)
             (0, 0, 200) (180, 30, 255)) = 0" by code_simp
  show ?thesis
    using C7_ordered_rules [OF n l, of "cv_stub [] []"] n l by (simp add: t r d h)
qed

subsection \<open>C8: detections are counted on rising edges\<close>

text \<open>
  C8: an iteration increments the detection counter, and logs one event, exactly when it
  finds motion and the previous processed frame had none. Over a run the counter grows by
  the number of rising edges of the per-frame motion flags, and so does the event log; an
  unbroken run of motion frames that starts without motion counts as exactly one
  detection and logs exactly one event.
\<close>

theorem C8_rising_edges:
  "total_detections (video_frame cv now frame s) =
     total_detections s + (if frame_motion cv s frame \<and> \<not> motion_detected s then 1 else 0) \<and>
   length (events_log (video_frame cv now frame s)) =
     length (events_log s) + (if frame_motion cv s frame \<and> \<not> motion_detected s then 1 else 0) \<and>
   total_detections (run_video cv s frames) =
     total_detections s + int (rising_edges (motion_detected s) (motion_flags cv s frames)) \<and>
   length (events_log (run_video cv s frames)) =
     length (events_log s) + rising_edges (motion_detected s) (motion_flags cv s frames) \<and>
   (\<not> motion_detected s \<and> motion_flags cv s frames = replicate (Suc n) True \<longrightarrow>
      total_detections (run_video cv s frames) = total_detections s + 1 \<and>
      length (events_log (run_video cv s frames)) = length (events_log s) + 1)"
proof -
  have a: "total_detections (video_frame cv now frame s) =
     total_detections s + (if frame_motion cv s frame \<and> \<not> motion_detected s then 1 else 0)"
    by (rule video_frame_total)
  have b: "length (events_log (video_frame cv now frame s)) =
     length (events_log s) + (if frame_motion cv s frame \<and> \<not> motion_detected s then 1 else 0)"
    by (rule video_frame_events)
  have c: "total_detections (run_video cv s frames) =
     total_detections s + int (rising_edges (motion_detected s) (motion_flags cv s frames))"
    using run_video_edges [of cv s frames] by (rule conjunct1)
  have d: "length (events_log (run_video cv s frames)) =
     length (events_log s) + rising_edges (motion_detected s) (motion_flags cv s frames)"
    using run_video_edges [of cv s frames] by (rule conjunct2)
  have e: "\<not> motion_detected s \<and> motion_flags cv s frames = replicate (Suc n) True \<longrightarrow>
      total_detections (run_video cv s frames) = total_detections s + 1 \<and>
      length (events_log (run_video cv s frames)) = length (events_log s) + 1"
  proof
    assume h: "\<not> motion_detected s \<and> motion_flags cv s frames = replicate (Suc n) True"
    then have "rising_edges (motion_detected s) (motion_flags cv s frames) = 1"
      using rising_edges_run [of n] by simp
    then show "total_detections (run_video cv s frames) = total_detections s + 1 \<and>
      length (events_log (run_video cv s frames)) = length (events_log s) + 1"
      using c d by simp
  qed
  from a b c d e show ?thesis by (intro conjI)
qed

theorem C8_rising_edges_witness:
  "\<not> motion_detected monitor_init \<and>
   motion_flags (cv_stub [big_contour] []) monitor_init
     [(''t0'', dark_frame), (''t1'', light_frame), (''t2'', light_frame)] =
     replicate (Suc 1) True \<and>
   total_detections
     (run_video (cv_stub [big_contour] []) monitor_init
        [(''t0'', dark_frame), (''t1'', light_frame), (''t2'', light_frame)]) = 1 \<and>
   length (events_log
     (run_video (cv_stub [big_contour] []) monitor_init
        [(''t0'', dark_frame), (''t1'', light_frame), (''t2'', light_frame)])) = 1"
proof -
  have f: "motion_flags (cv_stub [big_contour] []) monitor_init
      [(''t0'', dark_frame), (''t1'', light_frame), (''t2'', light_frame)] = [True, True]"
    by code_simp
  have r: "replicate (Suc 1) True = [True, True]" by simp
  have m: "\<not> motion_detected monitor_init" by (simp add: monitor_init_def)
  have i: "total_detections monitor_init = 0" "events_log monitor_init = []"
    by (simp_all add: monitor_init_def)
  show ?thesis
    using C8_rising_edges [of "cv_stub [big_contour] []" "''t0''" dark_frame monitor_init
        "[(''t0'', dark_frame), (''t1'', light_frame), (''t2'', light_frame)]" 1]
      f m i
    by (simp only: r simp_thms) simp
qed

subsection \<open>C9: faces at the top of the frame\<close>

text \<open>
  C9: for a face whose top edge has \<open>y \<le> 20\<close> no region above the face is taken, so no
  helmet check runs, and the frame and the violation history stay as they are: no
  annotation and no record. A helmet check on a region of size 0 returns false.
\<close>

theorem C9_top_faces_skipped:
  "(y \<le> 20 \<longrightarrow>
      helmet_roi frame (x, y, w, h) = None \<and>
      safety_face cv now (frame, st) (x, y, w, h) = (frame, st)) \<and>
   (img_size roi = 0 \<longrightarrow> detect_helmet cv roi = False)"
  by (simp add: helmet_roi_def safety_face_def detect_helmet_def)

theorem C9_top_faces_skipped_witness:
  "(20::int) \<le> 20 \<and>
   helmet_roi dark_frame (0, 20, 1, 1) = None \<and>
   safety_face (cv_stub [] [(0, 20, 1, 1)]) ''t'' (dark_frame, mining_init) (0, 20, 1, 1) =
     (dark_frame, mining_init) \<and>
   img_size [] = 0 \<and> detect_helmet (cv_stub [] [(0, 20, 1, 1)]) [] = False"
  using C9_top_faces_skipped
    [of 20 dark_frame 0 1 1 "cv_stub [] [(0, 20, 1, 1)]" "''t''" mining_init "[]"]
  by (simp add: img_size_def shape0_def)

subsection \<open>C10: the value of ore\<close>

text \<open>
  C10 (as stated in the specification): the value is linear in the area, so
  \<open>value(a1 + a2) = value(a1) + value(a2)\<close>. The value is a product of floats, and each
  float operation rounds: for iron and the areas 500.0 and 501.0 the value of the sum is
  \<open>100.10000000000001\<close> and the sum of the values is \<open>100.1\<close>.
\<close>

theorem C10_additivity_counterexample:
  "calculate_ore_value ''iron'' (float_add 500 501) (map_of ORE_TYPES) \<noteq>
   float_add (calculate_ore_value ''iron'' 500 (map_of ORE_TYPES))
             (calculate_ore_value ''iron'' 501 (map_of ORE_TYPES))"
  by code_simp

text \<open>
  C10 (amended): for every ore type of the table the value is the float product of the
  area and the float quotient of the base value by 1000; it is monotone in the area when
  the base value is not negative, as all base values of the configuration are; for every
  ore type that the table lacks the value is 0.0 whatever the area. The value is additive
  in the area only up to the rounding of the float operations.
\<close>

theorem C10_ore_value:
  "(ore_types_config ore_type = Some params \<longrightarrow>
      calculate_ore_value ore_type area ore_types_config =
        float_mul area (int_truediv (ore_value params) 1000)) \<and>
   (ore_types_config ore_type = Some params \<and> 0 \<le> ore_value params \<and> a1 \<le> a2 \<longrightarrow>
      calculate_ore_value ore_type a1 ore_types_config
        \<le> calculate_ore_value ore_type a2 ore_types_config) \<and>
   (ore_types_config ore_type = None \<longrightarrow>
      calculate_ore_value ore_type area ore_types_config = 0)"
proof -
  have "calculate_ore_value ore_type a1 ore_types_config
        \<le> calculate_ore_value ore_type a2 ore_types_config"
    if c: "ore_types_config ore_type = Some params" and v: "0 \<le> ore_value params"
      and a: "a1 \<le> a2"
  proof -
    have "0 \<le> int_truediv (ore_value params) 1000"
      unfolding int_truediv_def using v by (intro float_round_nonneg) simp
    then have "a1 * int_truediv (ore_value params) 1000
        \<le> a2 * int_truediv (ore_value params) 1000"
      using a by (rule mult_right_mono [rotated])
    then show ?thesis
      using c by (simp add: calculate_ore_value_def float_mul_def float_round_mono)
  qed
  then show ?thesis by (auto simp: calculate_ore_value_def)
qed

theorem C10_ore_value_witness:
  "map_of ORE_TYPES ''iron'' =
     Some \<lparr>color_range = ((0, 50, 50), (20, 255, 255)), ore_value = 100,
           ore_color = (0, 255, 0)\<rparr> \<and>
   calculate_ore_value ''iron'' 500 (map_of ORE_TYPES) =
     float_mul 500 (int_truediv 100 1000) \<and>
   calculate_ore_value ''iron'' 500 (map_of ORE_TYPES)
     \<le> calculate_ore_value ''iron'' 501 (map_of ORE_TYPES) \<and>
   map_of ORE_TYPES ''diamond'' = None \<and>
   calculate_ore_value ''diamond'' 500 (map_of ORE_TYPES) = 0"
  using C10_ore_value
      [of "map_of ORE_TYPES" "''iron''"
          "\<lparr>color_range = ((0, 50, 50), (20, 255, 255)), ore_value = 100,
            ore_color = (0, 255, 0)\<rparr>" 500 500 501]
    C10_ore_value [of "map_of ORE_TYPES" "''diamond''" undefined 500 500 501]
  by (simp add: ORE_TYPES_def)

end
